theory Spec2Isabelle
  imports Main
begin

section \<open>Strings, paths and the Python library functions the scripts call\<close>

text \<open>
  File names are Python \<open>str\<close> values, modelled as Isabelle strings. \<open>str.upper\<close> is
  modelled on the ASCII letters (every other character is left as it is), and
  \<open>os.path\<close> is the POSIX flavour: the separator is \<open>/\<close>, the extension separator
  is \<open>.\<close>. Output written by \<open>print\<close> is not modelled.
\<close>

definition upper_char :: "char \<Rightarrow> char" where
  "upper_char c =
     (let n = (of_char c :: nat) in if 97 \<le> n \<and> n \<le> 122 then char_of (n - 32) else c)"

definition upper :: "string \<Rightarrow> string" where
  "upper s = map upper_char s"

text \<open>\<open>p.rfind(c)\<close>: the highest index of \<open>c\<close> in \<open>p\<close>, or \<open>-1\<close>.\<close>

fun rfind :: "char \<Rightarrow> string \<Rightarrow> int" where
  "rfind c [] = -1"
| "rfind c (x # xs) =
     (let r = rfind c xs in if 0 \<le> r then r + 1 else if x = c then 0 else -1)"

text \<open>
  \<open>os.path.splitext\<close> (\<open>genericpath._splitext\<close> with \<open>sep = '/'\<close>, no \<open>altsep\<close> and
  \<open>extsep = '.'\<close>): the extension starts at the last dot, provided that dot lies after
  the last separator and some character between the separator and the dot is not a
  dot (leading dots of the last component do not start an extension).
\<close>

definition splitext :: "string \<Rightarrow> string \<times> string" where
  "splitext p =
     (let sepIndex = rfind CHR ''/'' p;
          dotIndex = rfind CHR ''.'' p
      in if dotIndex > sepIndex \<and>
            list_ex (\<lambda>c. c \<noteq> CHR ''.'')
              (take (nat (dotIndex - (sepIndex + 1))) (drop (nat (sepIndex + 1)) p))
         then (take (nat dotIndex) p, drop (nat dotIndex) p)
         else (p, []))"

text \<open>\<open>str(n)\<close> for a natural number, and the format \<open>f'{number:02d}'\<close>.\<close>

fun digits :: "nat \<Rightarrow> string" where
  "digits n =
     (if n < 10 then [char_of (48 + n)]
      else digits (n div 10) @ [char_of (48 + n mod 10)])"

declare digits.simps [simp del]

definition fmt02 :: "int \<Rightarrow> string" where
  "fmt02 number =
     (if number < 0 then CHR ''-'' # digits (nat (- number))
      else (let s = digits (nat number) in replicate (2 - length s) CHR ''0'' @ s))"

section \<open>pack.py: ISO 9660 file names\<close>

definition VALID_ISO_CHARS :: "char list" where
  "VALID_ISO_CHARS =
     map char_of [0x41 ..< (0x5B :: nat)] @ map char_of [0x30 ..< (0x3A :: nat)] @ [CHR ''_'']"

text \<open>
  The module-level dictionary \<open>ISO_NUMBERING\<close> is state of the process:
  \<open>make_iso_compliant\<close> takes it and returns it updated. It is \<open>{}\<close> when the module
  is loaded.
\<close>

type_synonym numbering = "string \<rightharpoonup> int"

definition ISO_NUMBERING_init :: numbering where
  "ISO_NUMBERING_init = Map.empty"

text \<open>The loop of lines 17 to 23: every character outside the valid set becomes \<open>_\<close>.\<close>

definition sanitize :: "string \<Rightarrow> string" where
  "sanitize file = map (\<lambda>c. if c \<in> set VALID_ISO_CHARS then c else CHR ''_'') file"

text \<open>Lines 25 to 33: a name that is too long or was changed by the loop is numbered.\<close>

definition number_name :: "string \<Rightarrow> string \<Rightarrow> numbering \<Rightarrow> string \<times> numbering" where
  "number_name name file ISO_NUMBERING =
     (if length name > 8 \<or> name \<noteq> file then
        (let name = take 6 name
         in case ISO_NUMBERING name of
              Some number \<Rightarrow> (name @ fmt02 number, ISO_NUMBERING(name \<mapsto> number + 1))
            | None \<Rightarrow> (name @ fmt02 1, ISO_NUMBERING(name \<mapsto> 2)))
      else (name, ISO_NUMBERING))"

text \<open>Lines 35 and 36: an extension that is too long or has an invalid character.\<close>

definition check_ext :: "string \<Rightarrow> string" where
  "check_ext ext =
     (if length ext > 4 \<or> list_ex (\<lambda>c. c \<notin> set VALID_ISO_CHARS) (drop 1 ext)
      then ''.'' else ext)"

definition make_iso_compliant :: "string \<Rightarrow> numbering \<Rightarrow> string \<times> numbering" where
  "make_iso_compliant file0 ISO_NUMBERING =
     (let (file1, ext0) = splitext file0;
          file = upper file1;
          ext = upper ext0;
          name = sanitize file;
          (name, ISO_NUMBERING) = number_name name file ISO_NUMBERING;
          ext = check_ext ext
      in (name @ ext, ISO_NUMBERING))"

text \<open>
  Helpers of the proofs about \<open>fmt02\<close>: the decimal digits, and the number a digit
  string denotes.
\<close>

definition is_digit :: "char \<Rightarrow> bool" where
  "is_digit c = (c \<in> set ''0123456789'')"

definition str_val :: "string \<Rightarrow> nat" where
  "str_val s = foldl (\<lambda>a c. 10 * a + (of_char c - 48)) 0 s"

text \<open>
  The names one run gives its files: \<open>make_iso_compliant\<close> applied to the files in the
  order of the walk, each call starting from the dictionary the call before left.
\<close>

fun iso_names :: "string list \<Rightarrow> numbering \<Rightarrow> string list \<times> numbering" where
  "iso_names [] ISO_NUMBERING = ([], ISO_NUMBERING)"
| "iso_names (file # files) ISO_NUMBERING =
     (let (iso_file, ISO_NUMBERING) = make_iso_compliant file ISO_NUMBERING;
          (rest, ISO_NUMBERING) = iso_names files ISO_NUMBERING
      in (iso_file # rest, ISO_NUMBERING))"

text \<open>
  What lines 25 to 33 decide for a file: whether its name is numbered, under which key,
  and the number the dictionary holds for a key (1 for a key it does not have).
\<close>

definition is_numbered :: "string \<Rightarrow> bool" where
  "is_numbered file0 =
     (let file = upper (fst (splitext file0))
      in length (sanitize file) > 8 \<or> sanitize file \<noteq> file)"

definition numbering_key :: "string \<Rightarrow> string" where
  "numbering_key file0 = take 6 (sanitize (upper (fst (splitext file0))))"

definition next_number :: "numbering \<Rightarrow> string \<Rightarrow> int" where
  "next_number ISO_NUMBERING name = (case ISO_NUMBERING name of Some number \<Rightarrow> number | None \<Rightarrow> 1)"

section \<open>Errors\<close>

datatype error =
    RuntimeError string
  | TypeError string
  | FileNotFoundError string
  | PyCdlibException string

section \<open>pack.py: assembling the image\<close>

text \<open>The staging tree under \<open>disk\<close>, each directory listing its entries in the order
  \<open>os.scandir\<close> gives them.\<close>

datatype fsnode = File string | Dir string "fsnode list"

definition path_join :: "string \<Rightarrow> string \<Rightarrow> string" where
  "path_join a b =
     (if b \<noteq> [] \<and> hd b = CHR ''/'' then b
      else if a = [] \<or> last a = CHR ''/'' then a @ b
      else a @ ''/'' @ b)"

fun dir_names :: "fsnode list \<Rightarrow> string list" where
  "dir_names [] = []"
| "dir_names (Dir d sub # es) = d # dir_names es"
| "dir_names (File f # es) = dir_names es"

fun file_names :: "fsnode list \<Rightarrow> string list" where
  "file_names [] = []"
| "file_names (Dir d sub # es) = file_names es"
| "file_names (File f # es) = f # file_names es"

text \<open>
  \<open>os.walk(top)\<close>, top down: the triple of the directory itself, then the walks of its
  subdirectories in the order of the listing.
\<close>

fun walk :: "string \<Rightarrow> fsnode list \<Rightarrow> (string \<times> string list \<times> string list) list" where
  "walk top_dir entries =
     (top_dir, dir_names entries, file_names entries) #
     concat (map (\<lambda>e. case e of Dir d sub \<Rightarrow> walk (path_join top_dir d) sub | File f \<Rightarrow> []) entries)"

declare walk.simps [simp del]

text \<open>\<open>s.split(c)\<close> and \<open>sep.join(parts)\<close>.\<close>

fun split_on :: "char \<Rightarrow> string \<Rightarrow> string list" where
  "split_on c [] = [[]]"
| "split_on c (x # xs) =
     (if x = c then [] # split_on c xs
      else (x # hd (split_on c xs)) # tl (split_on c xs))"

fun join :: "string \<Rightarrow> string list \<Rightarrow> string" where
  "join sep [] = []"
| "join sep [x] = x"
| "join sep (x # y # ys) = x @ sep @ join sep (y # ys)"

text \<open>
  The calls the scripts make on the image, in the order they make them. The library
  itself (pycdlib) is not part of the repository: it is a parameter, a constructor of the
  empty image and a function that performs one call on an image and either raises or
  returns a value (the file identifier of the record for \<open>get_record\<close>) and the image
  after the call. \<open>efi\<close> is \<open>None\<close> where the call does not pass it.
\<close>

datatype iso_call =
    New string
  | AddDirectory string string
  | AddFile string string string
  | GetRecord string
  | AddEltorito string string int bool "bool option"
  | WriteFp string
  | Close

record 'img pycdlib =
  PyCdlib :: 'img
  invoke :: "iso_call \<Rightarrow> 'img \<Rightarrow> error + string \<times> 'img"

record 'img pack_state =
  iso :: 'img
  calls :: "iso_call list"
  iso_numbering :: numbering

definition invoke_call ::
  "'img pycdlib \<Rightarrow> iso_call \<Rightarrow> 'img pack_state \<Rightarrow> (error + string) \<times> 'img pack_state" where
  "invoke_call lib c s =
     (case invoke lib c (iso s) of
        Inl e \<Rightarrow> (Inl e, s\<lparr>calls := calls s @ [c]\<rparr>)
      | Inr (r, img) \<Rightarrow> (Inr r, s\<lparr>iso := img, calls := calls s @ [c]\<rparr>))"

text \<open>Sequencing: an exception ends the computation with the state reached.\<close>

definition and_then ::
  "('e + 'a) \<times> 's \<Rightarrow> ('a \<Rightarrow> 's \<Rightarrow> ('e + 'b) \<times> 's) \<Rightarrow> ('e + 'b) \<times> 's" where
  "and_then m f = (case m of (Inl e, s) \<Rightarrow> (Inl e, s) | (Inr a, s) \<Rightarrow> f a s)"

text \<open>Lines 83 to 85, the loop over \<open>dirs\<close>.\<close>

fun add_directories ::
  "'img pycdlib \<Rightarrow> string \<Rightarrow> string list \<Rightarrow> 'img pack_state \<Rightarrow> (error + unit) \<times> 'img pack_state" where
  "add_directories lib iso_disk_root [] s = (Inr (), s)"
| "add_directories lib iso_disk_root (dir # dirs) s =
     and_then (invoke_call lib (AddDirectory (iso_disk_root @ ''/'' @ upper dir) dir) s)
       (\<lambda>_. add_directories lib iso_disk_root dirs)"

text \<open>Lines 87 to 90, the loop over \<open>files\<close>.\<close>

fun add_files ::
  "'img pycdlib \<Rightarrow> string \<Rightarrow> string \<Rightarrow> string list \<Rightarrow> 'img pack_state \<Rightarrow>
     (error + unit) \<times> 'img pack_state" where
  "add_files lib root iso_disk_root [] s = (Inr (), s)"
| "add_files lib root iso_disk_root (file # files) s =
     (let (iso_file, numbering') = make_iso_compliant file (iso_numbering s)
      in and_then
           (invoke_call lib
              (AddFile (path_join root file) (iso_disk_root @ ''/'' @ iso_file @ '';1'') file)
              (s\<lparr>iso_numbering := numbering'\<rparr>))
           (\<lambda>_. add_files lib root iso_disk_root files))"

text \<open>Lines 73 to 90, the loop over the walk (\<open>os.path.sep\<close> is \<open>/\<close>).\<close>

definition iso_root_of :: "string \<Rightarrow> string" where
  "iso_root_of root = (let disk_root = drop 4 root in join ''/'' (map upper (split_on CHR ''/'' disk_root)))"

fun walk_loop ::
  "'img pycdlib \<Rightarrow> (string \<times> string list \<times> string list) list \<Rightarrow> 'img pack_state \<Rightarrow>
     (error + unit) \<times> 'img pack_state" where
  "walk_loop lib [] s = (Inr (), s)"
| "walk_loop lib ((root, dirs, files) # rest) s =
     (let iso_disk_root = iso_root_of root
      in and_then (add_directories lib iso_disk_root dirs s)
           (\<lambda>_ s. and_then (add_files lib root iso_disk_root files s)
              (\<lambda>_. walk_loop lib rest)))"

section \<open>bootloader/limine.py: the boot catalog\<close>

datatype bootloader = LimineBootloader

fun project :: "bootloader \<Rightarrow> string" where
  "project LimineBootloader = ''microdragon-limine''"

fun make_bootable ::
  "bootloader \<Rightarrow> 'img pycdlib \<Rightarrow> 'img pack_state \<Rightarrow> (error + unit) \<times> 'img pack_state" where
  "make_bootable LimineBootloader lib s =
     and_then (invoke_call lib (GetRecord ''/limine/limine-bios-cd.bin'') s)
       (\<lambda>file_ident s.
          and_then
            (invoke_call lib (AddEltorito (''/LIMINE/'' @ file_ident) ''noemul'' 4 True None) s)
            (\<lambda>_ s.
               and_then (invoke_call lib (GetRecord ''/limine/limine-uefi-cd.bin'') s)
                 (\<lambda>file_ident s.
                    and_then
                      (invoke_call lib
                         (AddEltorito (''/LIMINE/'' @ file_ident) ''noemul'' 4 True (Some True)) s)
                      (\<lambda>_ s. (Inr (), s)))))"

text \<open>
  \<open>PackagingTask._package_disk_dir\<close>: a new image, the walk, the boot catalog, the
  write and the close. The dictionary \<open>ISO_NUMBERING\<close> comes in as the process holds it
  and goes out in the final state.
\<close>

definition package_disk_dir ::
  "'img pycdlib \<Rightarrow> bootloader \<Rightarrow> string \<Rightarrow> fsnode list \<Rightarrow> numbering \<Rightarrow>
     (error + unit) \<times> 'img pack_state" where
  "package_disk_dir lib bootloader output disk ISO_NUMBERING =
     and_then
       (invoke_call lib (New ''1.09'')
          \<lparr>iso = PyCdlib lib, calls = [], iso_numbering = ISO_NUMBERING\<rparr>)
       (\<lambda>_ s. and_then (walk_loop lib (walk ''disk'' disk) s)
          (\<lambda>_ s. and_then (make_bootable bootloader lib s)
             (\<lambda>_ s. and_then (invoke_call lib (WriteFp output) s)
                (\<lambda>_ s. and_then (invoke_call lib Close s)
                   (\<lambda>_ s. (Inr (), s))))))"

section \<open>A stand-in for the image library\<close>

text \<open>
  The theorems about the image hold for every library. To run the scripts on concrete
  trees, this small stand-in keeps the records of an image as pairs of ISO path and Rock
  Ridge path, and the boot catalog as the list of the \<open>add_eltorito\<close> calls: an entry
  needs its parent directory, \<open>get_record\<close> finds a record by its Rock Ridge path and
  returns the last component of its ISO path, \<open>add_eltorito\<close> needs the boot file.
\<close>

record stub_image =
  records :: "(string \<times> string) list"
  catalog :: "iso_call list"

definition parent_of :: "string \<Rightarrow> string" where
  "parent_of p = take (nat (rfind CHR ''/'' p)) p"

definition last_part :: "string \<Rightarrow> string" where
  "last_part p = drop (nat (rfind CHR ''/'' p + 1)) p"

definition stub_add :: "string \<Rightarrow> string \<Rightarrow> stub_image \<Rightarrow> error + string \<times> stub_image" where
  "stub_add iso_path rr_name img =
     (case map_of (records img) (parent_of iso_path) of
        None \<Rightarrow> Inl (PyCdlibException ''Could not find path'')
      | Some rr_parent \<Rightarrow>
          Inr ([], img\<lparr>records := records img @ [(iso_path, rr_parent @ ''/'' @ rr_name)]\<rparr>))"

fun stub_invoke :: "iso_call \<Rightarrow> stub_image \<Rightarrow> error + string \<times> stub_image" where
  "stub_invoke (New v) img = Inr ([], \<lparr>records = [([], [])], catalog = []\<rparr>)"
| "stub_invoke (AddDirectory iso_path rr_name) img = stub_add iso_path rr_name img"
| "stub_invoke (AddFile filename iso_path rr_name) img = stub_add iso_path rr_name img"
| "stub_invoke (GetRecord rr_path) img =
     (case filter (\<lambda>r. snd r = rr_path) (records img) of
        [] \<Rightarrow> Inl (PyCdlibException ''Could not find path'')
      | r # _ \<Rightarrow> Inr (last_part (fst r), img))"
| "stub_invoke (AddEltorito p media load_size table efi) img =
     (case map_of (records img) p of
        None \<Rightarrow> Inl (PyCdlibException ''Could not find path'')
      | Some _ \<Rightarrow> Inr ([], img\<lparr>catalog := catalog img @ [AddEltorito p media load_size table efi]\<rparr>))"
| "stub_invoke (WriteFp out) img = Inr ([], img)"
| "stub_invoke Close img = Inr ([], img)"

definition stub_lib :: "stub_image pycdlib" where
  "stub_lib = \<lparr>PyCdlib = \<lparr>records = [], catalog = []\<rparr>, invoke = stub_invoke\<rparr>"

text \<open>
  The staging tree \<open>LimineBootloader.copy_files\<close> and \<open>_copy_kernel\<close> leave under
  \<open>disk\<close>, with the directory \<open>limine\<close> listed before \<open>EFI\<close>.
\<close>

definition staged_disk :: "fsnode list" where
  "staged_disk =
     [Dir ''limine''
        [File ''limine-uefi-cd.bin'', File ''limine-bios-cd.bin'', File ''limine-bios.sys'',
         File ''limine.cfg''],
      Dir ''EFI'' [Dir ''BOOT'' [File ''BOOTAA64.EFI'', File ''BOOTRISCV64.EFI'', File ''BOOTX64.EFI'']],
      Dir ''system'' [File ''kernel'']]"

text \<open>The state of a run on the stand-in after the walk of the staged tree.\<close>

definition staged_state :: "stub_image pack_state" where
  "staged_state =
     snd (walk_loop stub_lib (walk ''disk'' staged_disk)
       (snd (invoke_call stub_lib (New ''1.09'')
          \<lparr>iso = PyCdlib stub_lib, calls = [], iso_numbering = ISO_NUMBERING_init\<rparr>)))"

text \<open>A smaller staging tree, with the two loader files \<open>make_bootable\<close> looks up.\<close>

definition minimal_disk :: "fsnode list" where
  "minimal_disk = [Dir ''limine'' [File ''limine-uefi-cd.bin'', File ''limine-bios-cd.bin'']]"

text \<open>
  Two packaging runs in one process. The dictionary \<open>ISO_NUMBERING\<close> is created once,
  when the module is loaded; \<open>make_iso_compliant\<close> reads and writes it and nothing
  resets it. So the second run starts from the dictionary the first run left.
\<close>

definition second_run ::
  "'img pycdlib \<Rightarrow> bootloader \<Rightarrow> string \<Rightarrow> fsnode list \<Rightarrow> (error + unit) \<times> 'img pack_state" where
  "second_run lib bootloader output disk =
     package_disk_dir lib bootloader output disk
       (iso_numbering (snd (package_disk_dir lib bootloader output disk ISO_NUMBERING_init)))"

section \<open>The calls a run is to make\<close>


fun file_calls :: "string \<Rightarrow> string \<Rightarrow> string list \<Rightarrow> numbering \<Rightarrow> iso_call list" where
  "file_calls root iso_disk_root [] m = []"
| "file_calls root iso_disk_root (file # files) m =
     AddFile (path_join root file)
       (iso_disk_root @ ''/'' @ fst (make_iso_compliant file m) @ '';1'') file
     # file_calls root iso_disk_root files (snd (make_iso_compliant file m))"


fun walk_files :: "(string \<times> string list \<times> string list) list \<Rightarrow> string list" where
  "walk_files [] = []"
| "walk_files ((root, dirs, files) # rest) = files @ walk_files rest"


fun is_boot_call :: "iso_call \<Rightarrow> bool" where
  "is_boot_call (GetRecord p) = True"
| "is_boot_call (AddEltorito p media load_size table efi) = True"
| "is_boot_call c = False"

fun is_eltorito :: "iso_call \<Rightarrow> bool" where
  "is_eltorito (AddEltorito p media load_size table efi) = True"
| "is_eltorito c = False"


text \<open>A dictionary grows: it keeps its keys, and no number gets smaller.\<close>

definition grows :: "numbering \<Rightarrow> numbering \<Rightarrow> bool" where
  "grows m m' = (\<forall>k n. m k = Some n \<longrightarrow> (\<exists>n'. m' k = Some n' \<and> n \<le> n'))"

text \<open>
  The calls \<open>LimineBootloader.make_bootable\<close> is to make from a state: each
  \<open>add_eltorito\<close> names the file identifier the \<open>get_record\<close> before it returned.
\<close>

definition returned :: "(error + string) \<times> 's \<Rightarrow> string" where
  "returned out = (case fst out of Inr r \<Rightarrow> r | Inl e \<Rightarrow> [])"

definition limine_boot_calls :: "'img pycdlib \<Rightarrow> 'img pack_state \<Rightarrow> iso_call list" where
  "limine_boot_calls lib s =
     (let c1 = GetRecord ''/limine/limine-bios-cd.bin'';
          o1 = invoke_call lib c1 s;
          c2 = AddEltorito (''/LIMINE/'' @ returned o1) ''noemul'' 4 True None;
          o2 = invoke_call lib c2 (snd o1);
          c3 = GetRecord ''/limine/limine-uefi-cd.bin'';
          o3 = invoke_call lib c3 (snd o2);
          c4 = AddEltorito (''/LIMINE/'' @ returned o3) ''noemul'' 4 True (Some True)
      in [c1, c2, c3, c4])"

section \<open>task.py and bootloader/bootloader.py: the registries\<close>

text \<open>
  Python values, as far as the registries look at them: a class, with its name and the
  names of the classes of its method resolution order (itself first); an instance, with
  its identity and its class; anything else. \<open>issubclass\<close> raises on a first argument
  that is not a class.
\<close>

record pyclass =
  class_name :: string
  mro :: "string list"

datatype pyvalue = ClassObj pyclass | Instance nat pyclass | OtherValue

fun issubclass :: "pyvalue \<Rightarrow> string \<Rightarrow> error + bool" where
  "issubclass (ClassObj c) base = Inr (base \<in> set (mro c))"
| "issubclass v base = Inl (TypeError ''issubclass() arg 1 must be a class'')"

fun isinstance :: "pyvalue \<Rightarrow> string \<Rightarrow> bool" where
  "isinstance (Instance i c) base = (base \<in> set (mro c))"
| "isinstance v base = False"

text \<open>
  Calling a class: \<open>init\<close> tells whether the constructor of a class raises; otherwise the
  call returns a new instance, whose identity \<open>n\<close> is the first one not yet in use.
\<close>

fun instantiate :: "(pyclass \<Rightarrow> error option) \<Rightarrow> pyvalue \<Rightarrow> nat \<Rightarrow> (error + pyvalue) \<times> nat" where
  "instantiate init (ClassObj c) n =
     (case init c of Some e \<Rightarrow> (Inl e, n) | None \<Rightarrow> (Inr (Instance n c), Suc n))"
| "instantiate init v n = (Inl (TypeError ''object is not callable''), n)"

text \<open>
  A registry is the dictionary of its one instance. Each method takes the dictionary and
  returns it with its result, so that what a failing call leaves behind can be stated.
\<close>

type_synonym registry = "string \<rightharpoonup> pyvalue"

definition TaskRegistry_register ::
  "string \<Rightarrow> pyvalue \<Rightarrow> registry \<Rightarrow> (error + unit) \<times> registry" where
  "TaskRegistry_register name task tasks =
     (if tasks name \<noteq> None then
        (Inl (RuntimeError (''Task '' @ name @ '' is already registered.'')), tasks)
      else
        (case issubclass task ''Task'' of
           Inl e \<Rightarrow> (Inl e, tasks)
         | Inr False \<Rightarrow> (Inl (TypeError ''Given task does not derive from Task class''), tasks)
         | Inr True \<Rightarrow> (Inr (), tasks(name \<mapsto> task))))"

definition create_task ::
  "(pyclass \<Rightarrow> error option) \<Rightarrow> string \<Rightarrow> registry \<Rightarrow> nat \<Rightarrow> (error + pyvalue) \<times> registry \<times> nat" where
  "create_task init name tasks n =
     (case tasks name of
        None \<Rightarrow> (Inl (RuntimeError (''No task registered with name '' @ name)), tasks, n)
      | Some task \<Rightarrow> (let (r, n') = instantiate init task n in (r, tasks, n')))"

definition BootloaderRegistry_register ::
  "string \<Rightarrow> pyvalue \<Rightarrow> registry \<Rightarrow> (error + unit) \<times> registry" where
  "BootloaderRegistry_register name loader bootloaders =
     (if bootloaders name \<noteq> None then
        (Inl (RuntimeError (''Bootloader '' @ name @ '' is already registered.'')), bootloaders)
      else if \<not> isinstance loader ''Bootloader'' then
        (Inl (TypeError ''Given bootloader does not derive from Bootloader class''), bootloaders)
      else (Inr (), bootloaders(name \<mapsto> loader)))"

definition get_bootloader :: "string \<Rightarrow> registry \<Rightarrow> (error + pyvalue) \<times> registry" where
  "get_bootloader name bootloaders =
     (case bootloaders name of
        None \<Rightarrow> (Inl (RuntimeError (''No bootloader registered with name '' @ name)), bootloaders)
      | Some loader \<Rightarrow> (Inr loader, bootloaders))"

text \<open>
  The singleton: \<open>TaskRegistry()\<close> creates the instance, with an empty dictionary, when
  there is none yet. \<open>register_task(name)\<close> is the decorator of line 59.
\<close>

definition TaskRegistry_new :: "registry option \<Rightarrow> registry \<times> registry option" where
  "TaskRegistry_new INSTANCE =
     (case INSTANCE of None \<Rightarrow> (Map.empty, Some Map.empty) | Some tasks \<Rightarrow> (tasks, Some tasks))"

definition register_task ::
  "string \<Rightarrow> pyvalue \<Rightarrow> registry option \<Rightarrow> (error + pyvalue) \<times> registry option" where
  "register_task name ty INSTANCE =
     (let (tasks, INSTANCE) = TaskRegistry_new INSTANCE
      in case TaskRegistry_register name ty tasks of
           (Inl e, tasks) \<Rightarrow> (Inl e, Some tasks)
         | (Inr _, tasks) \<Rightarrow> (Inr ty, Some tasks))"

text \<open>The classes of the repository.\<close>

definition Task_class :: pyclass where
  "Task_class = \<lparr>class_name = ''Task'', mro = [''Task'', ''ABC'', ''object'']\<rparr>"

definition BuildTask_class :: pyclass where
  "BuildTask_class = \<lparr>class_name = ''BuildTask'', mro = [''BuildTask'', ''Task'', ''ABC'', ''object'']\<rparr>"

definition PackagingTask_class :: pyclass where
  "PackagingTask_class =
     \<lparr>class_name = ''PackagingTask'',
      mro = [''PackagingTask'', ''BuildTask'', ''Task'', ''ABC'', ''object'']\<rparr>"

definition LimineBootloader_class :: pyclass where
  "LimineBootloader_class =
     \<lparr>class_name = ''LimineBootloader'', mro = [''LimineBootloader'', ''Bootloader'', ''ABC'', ''object'']\<rparr>"

section \<open>bootloader/bootloader.py: copying a file when it is newer\<close>

text \<open>
  The file system, as far as \<open>test_or_copy\<close> looks at it: each path that exists has a
  modification time and a content. \<open>fs_copied\<close> lists the copies \<open>shutil.copyfile\<close> has
  made. \<open>copyfile\<close> does not keep the modification time of the source: the target gets
  the time \<open>now\<close> of the write. Times are of any linearly ordered type.
\<close>

record 't filesystem =
  fs_files :: "string \<rightharpoonup> 't \<times> string"
  fs_copied :: "(string \<times> string) list"

definition path_exists :: "'t filesystem \<Rightarrow> string \<Rightarrow> bool" where
  "path_exists fs p = (fs_files fs p \<noteq> None)"

definition getmtime :: "'t filesystem \<Rightarrow> string \<Rightarrow> error + 't" where
  "getmtime fs p = (case fs_files fs p of None \<Rightarrow> Inl (FileNotFoundError p) | Some (t, d) \<Rightarrow> Inr t)"

definition copyfile :: "'t \<Rightarrow> string \<Rightarrow> string \<Rightarrow> 't filesystem \<Rightarrow> (error + unit) \<times> 't filesystem" where
  "copyfile now src dst fs =
     (case fs_files fs src of
        None \<Rightarrow> (Inl (FileNotFoundError src), fs)
      | Some (t, d) \<Rightarrow>
          (Inr (), fs\<lparr>fs_files := (fs_files fs)(dst \<mapsto> (now, d)),
                       fs_copied := fs_copied fs @ [(src, dst)]\<rparr>))"

definition test_or_copy ::
  "'t::linorder \<Rightarrow> string \<Rightarrow> string \<Rightarrow> 't filesystem \<Rightarrow> (error + unit) \<times> 't filesystem" where
  "test_or_copy now target copy fs =
     (if \<not> path_exists fs target then copyfile now copy target fs
      else
        (case getmtime fs copy of
           Inl e \<Rightarrow> (Inl e, fs)
         | Inr copy_time \<Rightarrow>
             (case getmtime fs target of
                Inl e \<Rightarrow> (Inl e, fs)
              | Inr target_time \<Rightarrow>
                  if copy_time > target_time then copyfile now copy target fs
                  else (Inr (), fs))))"

text \<open>
  How many files before position \<open>j\<close> of a run are numbered under the key of file \<open>j\<close>.
\<close>

definition earlier_uses :: "string list \<Rightarrow> nat \<Rightarrow> nat" where
  "earlier_uses files j =
     length (filter (\<lambda>f. is_numbered f \<and> numbering_key f = numbering_key (files ! j))
       (take j files))"

section \<open>Facts about the library functions\<close>

lemma VALID_ISO_CHARS_eq [code]: "VALID_ISO_CHARS = ''ABCDEFGHIJKLMNOPQRSTUVWXYZ0123456789_''"
  by code_simp

lemma dot_not_valid: "CHR ''.'' \<notin> set VALID_ISO_CHARS"
  by (simp add: VALID_ISO_CHARS_eq)

lemma upper_append: "upper (a @ b) = upper a @ upper b"
  by (simp add: upper_def)

lemma length_upper: "length (upper s) = length s"
  by (simp add: upper_def)

lemma upper_dot: "e \<noteq> [] \<Longrightarrow> hd e = CHR ''.'' \<Longrightarrow> hd (upper e) = CHR ''.''"
proof -
  have "upper_char CHR ''.'' = CHR ''.''" by code_simp
  then show "e \<noteq> [] \<Longrightarrow> hd e = CHR ''.'' \<Longrightarrow> hd (upper e) = CHR ''.''"
    by (cases e) (simp_all add: upper_def)
qed

lemma length_sanitize: "length (sanitize s) = length s"
  by (simp add: sanitize_def)

lemma sanitize_valid: "set (sanitize s) \<subseteq> set VALID_ISO_CHARS"
  by (auto simp: sanitize_def VALID_ISO_CHARS_eq)

lemma sanitize_id_iff: "sanitize s = s \<longleftrightarrow> list_all (\<lambda>c. c \<in> set VALID_ISO_CHARS) s"
  by (induction s) (auto simp: sanitize_def VALID_ISO_CHARS_eq)

lemma rfind_bounds: "rfind c p < int (length p) \<and> -1 \<le> rfind c p"
  by (induction p) (auto simp: Let_def)

lemma rfind_nth: "0 \<le> rfind c p \<Longrightarrow> p ! nat (rfind c p) = c"
proof (induction p)
  case Nil
  then show ?case by simp
next
  case (Cons x xs)
  show ?case
  proof (cases "0 \<le> rfind c xs")
    case True
    then have "nat (rfind c xs + 1) = Suc (nat (rfind c xs))" by simp
    with True Cons.IH show ?thesis by (simp add: Let_def)
  next
    case False
    with Cons.prems show ?thesis by (simp add: Let_def split: if_splits)
  qed
qed

lemma splitext_append: "splitext p = (b, e) \<Longrightarrow> b @ e = p"
  by (auto simp: splitext_def Let_def split: if_splits)

lemma splitext_ext: "splitext p = (b, e) \<Longrightarrow> e = [] \<or> hd e = CHR ''.''"
proof -
  assume a: "splitext p = (b, e)"
  show ?thesis
  proof (cases "e = []")
    case True
    then show ?thesis by simp
  next
    case False
    with a have e: "e = drop (nat (rfind CHR ''.'' p)) p"
      and d: "rfind CHR ''/'' p < rfind CHR ''.'' p"
      by (auto simp: splitext_def Let_def split: if_splits)
    have "-1 \<le> rfind CHR ''/'' p" using rfind_bounds by blast
    with d have nn: "0 \<le> rfind CHR ''.'' p" by simp
    have lt: "nat (rfind CHR ''.'' p) < length p"
      using rfind_bounds [of "CHR ''.''" p] nn by simp
    have "hd e = p ! nat (rfind CHR ''.'' p)" using e lt by (simp add: hd_drop_conv_nth)
    with rfind_nth [OF nn] show ?thesis by simp
  qed
qed

lemma digit_char: "(n::nat) < 10 \<Longrightarrow> is_digit (char_of (48 + n))"
proof -
  have "\<forall>n \<in> set [0 ..< 10 :: nat]. is_digit (char_of (48 + n))" by code_simp
  then show "n < 10 \<Longrightarrow> is_digit (char_of (48 + n))" by simp
qed

lemma digit_val: "n < 10 \<Longrightarrow> (of_char (char_of (48 + n :: nat)) :: nat) = 48 + n"
  by (simp add: of_char_of)

lemma digits_is_digit: "list_all is_digit (digits n)"
proof (induction n rule: digits.induct)
  case (1 n)
  show ?case
  proof (cases "n < 10")
    case True
    then show ?thesis by (subst digits.simps) (simp add: digit_char)
  next
    case False
    with 1 show ?thesis by (subst digits.simps) (simp add: digit_char)
  qed
qed

lemma digits_nonempty: "digits n \<noteq> []"
  by (subst digits.simps) simp

lemma str_val_snoc: "str_val (s @ [c]) = 10 * str_val s + (of_char c - 48)"
  by (simp add: str_val_def)

lemma str_val_digits: "str_val (digits n) = n"
proof (induction n rule: digits.induct)
  case (1 n)
  show ?case
  proof (cases "n < 10")
    case True
    then show ?thesis by (subst digits.simps) (simp add: str_val_def digit_val)
  next
    case False
    with 1 show ?thesis by (subst digits.simps) (simp add: str_val_snoc digit_val)
  qed
qed


lemma str_val_zeros: "str_val (replicate k CHR ''0'' @ s) = str_val s"
proof -
  have "foldl (\<lambda>a c. 10 * a + (of_char c - 48)) 0 (replicate k CHR ''0'') = (0::nat)"
    by (induction k) (simp_all add: replicate_app_Cons_same)
  then show ?thesis by (simp add: str_val_def)
qed

lemma fmt02_nonneg: "0 \<le> n \<Longrightarrow> str_val (fmt02 n) = nat n \<and> list_all is_digit (fmt02 n)"
proof -
  assume "0 \<le> n"
  have "is_digit CHR ''0''" by (simp add: is_digit_def)
  then have "list_all is_digit (replicate k CHR ''0'')" for k by (simp add: list_all_iff)
  with \<open>0 \<le> n\<close> show ?thesis
    by (simp add: fmt02_def Let_def str_val_zeros str_val_digits digits_is_digit)
qed

lemma fmt02_neg: "n < 0 \<Longrightarrow> hd (fmt02 n) = CHR ''-'' \<and> str_val (tl (fmt02 n)) = nat (- n)"
  by (simp add: fmt02_def str_val_digits)

lemma fmt02_nonempty: "fmt02 n \<noteq> []"
  by (simp add: fmt02_def Let_def digits_nonempty)

lemma not_digit_dot: "\<not> is_digit CHR ''.''"
  by (simp add: is_digit_def)

lemma fmt02_no_dot: "CHR ''.'' \<notin> set (fmt02 n)"
proof (cases "n < 0")
  case True
  have "list_all is_digit (digits (nat (- n)))" by (rule digits_is_digit)
  then have "CHR ''.'' \<notin> set (digits (nat (- n)))"
    unfolding list_all_iff using not_digit_dot by blast
  with True show ?thesis by (simp add: fmt02_def)
next
  case False
  then have "list_all is_digit (fmt02 n)" using fmt02_nonneg [of n] by simp
  then show ?thesis unfolding list_all_iff using not_digit_dot by blast
qed

lemma fmt02_inj: "fmt02 n = fmt02 m \<Longrightarrow> n = m"
proof -
  assume eq: "fmt02 n = fmt02 m"
  have minus: "\<not> is_digit CHR ''-''" by (simp add: is_digit_def)
  have mixed: "a < 0 \<Longrightarrow> 0 \<le> b \<Longrightarrow> fmt02 a \<noteq> fmt02 b" for a b
  proof
    assume a: "a < 0" and b: "0 \<le> b" and e: "fmt02 a = fmt02 b"
    from fmt02_nonneg [OF b] have "list_all is_digit (fmt02 b)" by simp
    with fmt02_nonempty [of b] have "is_digit (hd (fmt02 b))" by (cases "fmt02 b") simp_all
    with fmt02_neg [OF a] e minus show False by simp
  qed
  consider "n < 0" "m < 0" | "n < 0" "0 \<le> m" | "0 \<le> n" "m < 0" | "0 \<le> n" "0 \<le> m" by linarith
  then show ?thesis
  proof cases
    case 1
    with fmt02_neg [of n] fmt02_neg [of m] eq have "nat (- n) = nat (- m)" by simp
    with 1 show ?thesis by simp
  next
    case 2
    with mixed eq show ?thesis by blast
  next
    case 3
    with mixed [of m n] eq show ?thesis by simp
  next
    case 4
    with fmt02_nonneg [of n] fmt02_nonneg [of m] eq have "nat n = nat m" by simp
    with 4 show ?thesis by simp
  qed
qed

lemma fmt02_two_digits: "0 \<le> n \<Longrightarrow> n < 100 \<Longrightarrow> length (fmt02 n) = 2"
proof -
  assume a: "0 \<le> n" "n < 100"
  have len: "k < 100 \<Longrightarrow> length (digits k) \<le> 2" for k
  proof -
    assume k: "k < 100"
    show ?thesis
    proof (cases "k < 10")
      case True
      then show ?thesis by (subst digits.simps) simp
    next
      case False
      with k have "k div 10 < 10" by simp
      then have "digits (k div 10) = [char_of (48 + k div 10)]" by (subst digits.simps) simp
      with False show ?thesis by (subst digits.simps) simp
    qed
  qed
  have "length (digits (nat n)) \<le> 2" using a by (intro len) simp
  moreover have "0 < length (digits (nat n))" using digits_nonempty by simp
  ultimately show ?thesis using a by (auto simp: fmt02_def Let_def)
qed

lemma fmt02_1: "fmt02 1 = ''01''"
  by code_simp


section \<open>make_iso_compliant\<close>

lemma make_iso_compliant_split:
  "splitext file0 = (b, e) \<Longrightarrow>
   make_iso_compliant file0 m =
     (fst (number_name (sanitize (upper b)) (upper b) m) @ check_ext (upper e),
      snd (number_name (sanitize (upper b)) (upper b) m))"
  by (simp add: make_iso_compliant_def Let_def case_prod_beta)

lemma number_name_numbered:
  "length name > 8 \<or> name \<noteq> file \<Longrightarrow>
   number_name name file m =
     (take 6 name @ fmt02 (next_number m (take 6 name)),
      m(take 6 name \<mapsto> next_number m (take 6 name) + 1))"
  by (auto simp: number_name_def next_number_def Let_def split: option.splits)

lemma number_name_kept:
  "length name \<le> 8 \<Longrightarrow> name = file \<Longrightarrow> number_name name file m = (name, m)"
  by (auto simp: number_name_def)

lemma number_name_no_dot:
  "CHR ''.'' \<notin> set (fst (number_name (sanitize f) f m))"
proof -
  have s: "CHR ''.'' \<notin> set (sanitize f)"
    using sanitize_valid [of f] dot_not_valid by blast
  then have t: "CHR ''.'' \<notin> set (take 6 (sanitize f))"
    by (meson in_set_takeD)
  show ?thesis
  proof (cases "length (sanitize f) > 8 \<or> sanitize f \<noteq> f")
    case True
    then show ?thesis using t fmt02_no_dot by (simp add: number_name_numbered)
  next
    case False
    then have "number_name (sanitize f) f m = (sanitize f, m)"
      by (intro number_name_kept) auto
    then show ?thesis using s by simp
  qed
qed

lemma check_ext_cases:
  "e = [] \<or> hd e = CHR ''.'' \<Longrightarrow> check_ext e = [] \<or> hd (check_ext e) = CHR ''.''"
  by (auto simp: check_ext_def)

text \<open>
  C1 (as the code has it). In a fresh run \<open>longfilename.bin\<close> becomes \<open>LONGFI01.BIN\<close>:
  the base \<open>longfilename\<close> has 12 characters, so does its sanitized upper-case form,
  which is longer than 8; it is cut to its first 6 characters \<open>LONGFI\<close>, the first use of
  that key gives the number 01, and the dictionary then holds 2 for the key.
\<close>

theorem C1_longfilename:
  "make_iso_compliant ''longfilename.bin'' ISO_NUMBERING_init =
     (''LONGFI01.BIN'', ISO_NUMBERING_init(''LONGFI'' \<mapsto> 2))
   \<and> splitext ''longfilename.bin'' = (''longfilename'', ''.bin'')
   \<and> sanitize (upper ''longfilename'') = ''LONGFILENAME''
   \<and> length (sanitize (upper ''longfilename'')) = 12"
proof -
  have sp: "splitext ''longfilename.bin'' = (''longfilename'', ''.bin'')" by code_simp
  have sa: "sanitize (upper ''longfilename'') = ''LONGFILENAME''" by code_simp
  have up: "upper ''longfilename'' = ''LONGFILENAME''" by code_simp
  have ex: "check_ext (upper ''.bin'') = ''.BIN''" by code_simp
  have f1: "fmt02 1 = ''01''" by code_simp
  have nn: "number_name ''LONGFILENAME'' ''LONGFILENAME'' ISO_NUMBERING_init =
      (''LONGFI01'', ISO_NUMBERING_init(''LONGFI'' \<mapsto> 2))"
    by (simp add: number_name_def ISO_NUMBERING_init_def f1)
  show ?thesis
    using sp sa by (simp add: make_iso_compliant_split [OF sp] up ex nn)
qed

text \<open>
  C1, the claim as written, fails: the name returned is not \<open>LONGFIL01.BIN\<close>, whose
  base keeps 7 characters of the name.
\<close>

theorem C1_counterexample:
  "fst (make_iso_compliant ''longfilename.bin'' ISO_NUMBERING_init) \<noteq> ''LONGFIL01.BIN''"
  by code_simp

text \<open>
  C10. A file whose upper-case base has at most 8 characters, all of them valid, and
  whose upper-case extension has at most 4 characters (the dot counted), all valid after
  the dot, gets its upper-case name, and the dictionary is left as it was.
\<close>

theorem C10_compliant_name_kept:
  assumes "splitext file = (base, ext)"
    and "length (upper base) \<le> 8"
    and "list_all (\<lambda>c. c \<in> set VALID_ISO_CHARS) (upper base)"
    and "length (upper ext) \<le> 4"
    and "list_all (\<lambda>c. c \<in> set VALID_ISO_CHARS) (drop 1 (upper ext))"
  shows "make_iso_compliant file m = (upper file, m)"
proof -
  have same: "sanitize (upper base) = upper base"
    using assms(3) by (simp add: sanitize_id_iff)
  with assms(2) have nn: "number_name (sanitize (upper base)) (upper base) m = (upper base, m)"
    using number_name_kept [of "upper base" "upper base" m] by simp
  have "\<not> list_ex (\<lambda>c. c \<notin> set VALID_ISO_CHARS) (drop 1 (upper ext))"
    using assms(5) by (simp add: list_all_iff list_ex_iff)
  with assms(4) have ce: "check_ext (upper ext) = upper ext"
    by (simp add: check_ext_def)
  have "upper file = upper base @ upper ext"
    using splitext_append [OF assms(1)] upper_append by metis
  then show ?thesis
    using nn by (simp add: make_iso_compliant_split [OF assms(1)] same ce)
qed

theorem C10_witness:
  "make_iso_compliant ''kernel.elf'' ISO_NUMBERING_init = (''KERNEL.ELF'', ISO_NUMBERING_init)"
proof -
  have 1: "splitext ''kernel.elf'' = (''kernel'', ''.elf'')" by code_simp
  have 2: "length (upper ''kernel'') \<le> 8" by code_simp
  have 3: "list_all (\<lambda>c. c \<in> set VALID_ISO_CHARS) (upper ''kernel'')" by code_simp
  have 4: "length (upper ''.elf'') \<le> 4" by code_simp
  have 5: "list_all (\<lambda>c. c \<in> set VALID_ISO_CHARS) (drop 1 (upper ''.elf''))" by code_simp
  have 6: "upper ''kernel.elf'' = ''KERNEL.ELF''" by code_simp
  show ?thesis
    using C10_compliant_name_kept [OF 1 2 3 4 5, of ISO_NUMBERING_init] by (simp only: 6)
qed

text \<open>
  C2 (as the code has it). The comparison of line 25 is between the sanitized name and
  the upper-case base, so a name is numbered when the loop replaced a character of the
  upper-case base (whatever its length): the name returned is then the first 6 characters
  of the sanitized upper-case base, the number the dictionary holds for that key (1 for a
  new key) padded with zeros to two digits, and the extension; the dictionary holds the
  next number afterwards. A number from 0 to 99 is written with exactly two digits.
\<close>

theorem C2_replaced_character_numbered:
  assumes "splitext file = (base, ext)"
    and "sanitize (upper base) \<noteq> upper base"
  shows "make_iso_compliant file m =
           (take 6 (sanitize (upper base))
              @ fmt02 (next_number m (take 6 (sanitize (upper base))))
              @ check_ext (upper ext),
            m(take 6 (sanitize (upper base)) \<mapsto>
                next_number m (take 6 (sanitize (upper base))) + 1))
         \<and> (0 \<le> next_number m (take 6 (sanitize (upper base)))
              \<and> next_number m (take 6 (sanitize (upper base))) < 100
            \<longrightarrow> length (fmt02 (next_number m (take 6 (sanitize (upper base))))) = 2
              \<and> list_all is_digit (fmt02 (next_number m (take 6 (sanitize (upper base))))))"
proof -
  have "number_name (sanitize (upper base)) (upper base) m =
      (take 6 (sanitize (upper base)) @ fmt02 (next_number m (take 6 (sanitize (upper base)))),
       m(take 6 (sanitize (upper base)) \<mapsto> next_number m (take 6 (sanitize (upper base))) + 1))"
    using assms(2) by (intro number_name_numbered) simp
  then show ?thesis
    using fmt02_two_digits fmt02_nonneg
    by (simp add: make_iso_compliant_split [OF assms(1)])
qed

theorem C2_witness:
  "make_iso_compliant ''a b.c'' ISO_NUMBERING_init = (''A_B01.C'', ISO_NUMBERING_init(''A_B'' \<mapsto> 2))
   \<and> length (sanitize (upper ''a b'')) \<le> 8"
proof -
  have 1: "splitext ''a b.c'' = (''a b'', ''.c'')" by code_simp
  have 2: "sanitize (upper ''a b'') \<noteq> upper ''a b''" by code_simp
  have 3: "sanitize (upper ''a b'') = ''A_B''" by code_simp
  have 4: "check_ext (upper ''.c'') = ''.C''" by code_simp
  have 5: "fmt02 1 = ''01''" by code_simp
  have 6: "next_number ISO_NUMBERING_init ''A_B'' = 1"
    by (simp add: next_number_def ISO_NUMBERING_init_def)
  show ?thesis
    using C2_replaced_character_numbered [OF 1 2, of ISO_NUMBERING_init]
    by (simp add: 3 4 5 6)
qed

text \<open>
  C2, the claim as written, fails: upper-casing changes the base \<open>kernel\<close>, yet the
  name is not numbered. The name returned is \<open>KERNEL.ELF\<close> and the dictionary has no
  entry for \<open>KERNEL\<close>.
\<close>

theorem C2_counterexample:
  "upper ''kernel'' \<noteq> ''kernel''
   \<and> fst (make_iso_compliant ''kernel.elf'' ISO_NUMBERING_init) = ''KERNEL.ELF''
   \<and> snd (make_iso_compliant ''kernel.elf'' ISO_NUMBERING_init) ''KERNEL'' = None"
  by code_simp

text \<open>
  C7 (as the code has it). When the upper-case extension is longer than 4 characters
  (the dot counted) or has a character after the dot outside the valid set, the name
  returned is the base part followed by a bare dot. A file with no extension at all gets
  the base part alone, with no dot. The base part itself never holds a dot.
\<close>

theorem C7_extension:
  assumes "splitext file = (base, ext)"
  shows "(length (upper ext) > 4 \<or> list_ex (\<lambda>c. c \<notin> set VALID_ISO_CHARS) (drop 1 (upper ext))
            \<longrightarrow> fst (make_iso_compliant file m) =
                  fst (number_name (sanitize (upper base)) (upper base) m) @ ''.'')
         \<and> (ext = []
            \<longrightarrow> fst (make_iso_compliant file m) =
                  fst (number_name (sanitize (upper base)) (upper base) m))
         \<and> CHR ''.'' \<notin> set (fst (number_name (sanitize (upper base)) (upper base) m))"
proof -
  have "check_ext [] = []" by (simp add: check_ext_def)
  then show ?thesis
    using number_name_no_dot [of "upper base" m]
    by (auto simp: make_iso_compliant_split [OF assms] check_ext_def upper_def)
qed

theorem C7_witness:
  "fst (make_iso_compliant ''limine.config'' ISO_NUMBERING_init) = ''LIMINE.''
   \<and> fst (make_iso_compliant ''a.b-c'' ISO_NUMBERING_init) = ''A.''
   \<and> fst (make_iso_compliant ''kernel'' ISO_NUMBERING_init) = ''KERNEL''"
proof -
  have 1: "splitext ''limine.config'' = (''limine'', ''.config'')" by code_simp
  have 2: "length (upper ''.config'') > 4" by code_simp
  have 3: "fst (number_name (sanitize (upper ''limine'')) (upper ''limine'') ISO_NUMBERING_init)
      = ''LIMINE''" by code_simp
  have 4: "splitext ''a.b-c'' = (''a'', ''.b-c'')" by code_simp
  have 5: "list_ex (\<lambda>c. c \<notin> set VALID_ISO_CHARS) (drop 1 (upper ''.b-c''))" by code_simp
  have 6: "fst (number_name (sanitize (upper ''a'')) (upper ''a'') ISO_NUMBERING_init) = ''A''"
    by code_simp
  have 7: "splitext ''kernel'' = (''kernel'', [])" by code_simp
  have 8: "fst (number_name (sanitize (upper ''kernel'')) (upper ''kernel'') ISO_NUMBERING_init)
      = ''KERNEL''" by code_simp
  show ?thesis
    using C7_extension [OF 1, of ISO_NUMBERING_init] C7_extension [OF 4, of ISO_NUMBERING_init]
      C7_extension [OF 7, of ISO_NUMBERING_init] 2 5
    by (simp only: 3 6 8 append_Cons append_Nil simp_thms)
qed

text \<open>
  C7, the claim as written, fails in its second half: \<open>kernel\<close> has no extension, the
  extension of the result is empty, and the name returned is \<open>KERNEL\<close>, with no dot at
  its end.
\<close>

theorem C7_counterexample:
  "check_ext (upper (snd (splitext ''kernel''))) = []
   \<and> fst (make_iso_compliant ''kernel'' ISO_NUMBERING_init) = ''KERNEL''
   \<and> last (fst (make_iso_compliant ''kernel'' ISO_NUMBERING_init)) \<noteq> CHR ''.''"
  by code_simp

section \<open>The numbering within one run\<close>

lemma make_iso_compliant_numbered:
  assumes "is_numbered file"
  shows "make_iso_compliant file m =
           (numbering_key file @ fmt02 (next_number m (numbering_key file))
              @ check_ext (upper (snd (splitext file))),
            m(numbering_key file \<mapsto> next_number m (numbering_key file) + 1))"
proof -
  obtain b e where sp: "splitext file = (b, e)" by (cases "splitext file")
  with assms have "length (sanitize (upper b)) > 8 \<or> sanitize (upper b) \<noteq> upper b"
    by (simp add: is_numbered_def Let_def)
  then show ?thesis
    using sp
    by (simp add: make_iso_compliant_split [OF sp] number_name_numbered numbering_key_def)
qed

lemma make_iso_compliant_kept:
  assumes "\<not> is_numbered file"
  shows "snd (make_iso_compliant file m) = m"
proof -
  obtain b e where sp: "splitext file = (b, e)" by (cases "splitext file")
  with assms have "\<not> 8 < length (sanitize (upper b))" and "sanitize (upper b) = upper b"
    by (auto simp: is_numbered_def Let_def length_sanitize)
  then have "length (sanitize (upper b)) \<le> 8" and "sanitize (upper b) = upper b"
    by (simp_all only: not_less)
  then have "number_name (sanitize (upper b)) (upper b) m = (sanitize (upper b), m)"
    by (rule number_name_kept)
  then show ?thesis by (simp add: make_iso_compliant_split [OF sp])
qed

lemma next_number_step:
  "next_number m k \<le> next_number (snd (make_iso_compliant file m)) k"
proof (cases "is_numbered file")
  case True
  then show ?thesis
    by (simp add: make_iso_compliant_numbered next_number_def)
next
  case False
  then show ?thesis by (simp add: make_iso_compliant_kept)
qed

lemma next_number_step_strict:
  "is_numbered file \<Longrightarrow>
   next_number (snd (make_iso_compliant file m)) (numbering_key file)
     = next_number m (numbering_key file) + 1"
  by (simp add: make_iso_compliant_numbered next_number_def)

lemma iso_names_append:
  "iso_names (a @ b) m =
     (fst (iso_names a m) @ fst (iso_names b (snd (iso_names a m))),
      snd (iso_names b (snd (iso_names a m))))"
  by (induction a arbitrary: m) (simp_all add: case_prod_beta)

lemma length_iso_names: "length (fst (iso_names files m)) = length files"
  by (induction files arbitrary: m) (simp_all add: case_prod_beta)

lemma next_number_run: "next_number m k \<le> next_number (snd (iso_names files m)) k"
proof (induction files arbitrary: m)
  case Nil
  then show ?case by simp
next
  case (Cons f fs)
  have "next_number m k \<le> next_number (snd (make_iso_compliant f m)) k"
    by (rule next_number_step)
  also have "\<dots> \<le> next_number (snd (iso_names fs (snd (make_iso_compliant f m)))) k"
    by (rule Cons.IH)
  finally show ?case by (simp add: case_prod_beta)
qed

lemma iso_names_nth:
  assumes "i < length files"
  shows "fst (iso_names files m) ! i =
           fst (make_iso_compliant (files ! i) (snd (iso_names (take i files) m)))"
proof -
  have split: "files = take i files @ (files ! i) # drop (Suc i) files"
    using assms by (simp add: id_take_nth_drop)
  have "fst (iso_names files m) ! i =
      fst (iso_names (take i files @ (files ! i) # drop (Suc i) files) m) ! i"
    using split by simp
  also have "\<dots> = fst (iso_names ((files ! i) # drop (Suc i) files)
      (snd (iso_names (take i files) m))) ! 0"
    using assms by (simp add: iso_names_append nth_append length_iso_names)
  also have "\<dots> = fst (make_iso_compliant (files ! i) (snd (iso_names (take i files) m)))"
    by (simp add: case_prod_beta)
  finally show ?thesis .
qed

lemma iso_names_take_Suc:
  assumes "i < length files"
  shows "snd (iso_names (take (Suc i) files) m) =
           snd (make_iso_compliant (files ! i) (snd (iso_names (take i files) m)))"
proof -
  have "take (Suc i) files = take i files @ [files ! i]"
    using assms by (simp add: take_Suc_conv_app_nth)
  then show ?thesis by (simp add: iso_names_append case_prod_beta)
qed

lemma next_number_between:
  assumes "i \<le> j"
  shows "next_number (snd (iso_names (take i files) m)) k
           \<le> next_number (snd (iso_names (take j files) m)) k"
proof -
  have "take j files = take i files @ drop i (take j files)"
    using assms by (metis append_take_drop_id min.absorb1 take_take)
  then have "snd (iso_names (take j files) m) =
      snd (iso_names (drop i (take j files)) (snd (iso_names (take i files) m)))"
    by (metis iso_names_append snd_conv)
  then show ?thesis by (simp add: next_number_run)
qed

lemma numbered_names_differ:
  assumes "e1 = [] \<or> hd e1 = CHR ''.''" and "e2 = [] \<or> hd e2 = CHR ''.''"
    and "key @ fmt02 a @ e1 = key @ fmt02 b @ e2"
  shows "a = b"
proof -
  have tw: "takeWhile (\<lambda>c. c \<noteq> CHR ''.'') (fmt02 n @ e) = fmt02 n"
    if "e = [] \<or> hd e = CHR ''.''" for n e
  proof -
    have "takeWhile (\<lambda>c. c \<noteq> CHR ''.'') e = []"
      using that by (cases e) auto
    moreover have "\<And>x. x \<in> set (fmt02 n) \<Longrightarrow> x \<noteq> CHR ''.''"
      using fmt02_no_dot by blast
    ultimately show ?thesis by (simp add: takeWhile_append2)
  qed
  from assms(3) have "fmt02 a @ e1 = fmt02 b @ e2" by simp
  then have "takeWhile (\<lambda>c. c \<noteq> CHR ''.'') (fmt02 a @ e1)
      = takeWhile (\<lambda>c. c \<noteq> CHR ''.'') (fmt02 b @ e2)" by simp
  then have "fmt02 a = fmt02 b" using tw [OF assms(1)] tw [OF assms(2)] by simp
  then show ?thesis by (rule fmt02_inj)
qed

lemma final_ext_cases:
  "check_ext (upper (snd (splitext file))) = []
   \<or> hd (check_ext (upper (snd (splitext file)))) = CHR ''.''"
proof -
  obtain b e where sp: "splitext file = (b, e)" by (cases "splitext file")
  have "upper e = [] \<or> hd (upper e) = CHR ''.''"
    using splitext_ext [OF sp] upper_dot [of e] by (auto simp: upper_def)
  then show ?thesis using sp by (simp add: check_ext_cases)
qed

lemma next_number_step_other:
  "is_numbered file \<Longrightarrow> numbering_key file \<noteq> k \<Longrightarrow>
   next_number (snd (make_iso_compliant file m)) k = next_number m k"
  by (simp add: make_iso_compliant_numbered next_number_def)

lemma next_number_count:
  "next_number (snd (iso_names fs m)) k =
     next_number m k + int (length (filter (\<lambda>f. is_numbered f \<and> numbering_key f = k) fs))"
proof (induction fs arbitrary: m)
  case Nil
  then show ?case by simp
next
  case (Cons f fs)
  have step: "next_number (snd (make_iso_compliant f m)) k =
      next_number m k + (if is_numbered f \<and> numbering_key f = k then 1 else 0)"
  proof (cases "is_numbered f")
    case True
    then show ?thesis
      using next_number_step_strict [of f m] next_number_step_other [of f k m] by auto
  next
    case False
    then show ?thesis by (simp add: make_iso_compliant_kept)
  qed
  have "next_number (snd (iso_names (f # fs) m)) k =
      next_number (snd (iso_names fs (snd (make_iso_compliant f m)))) k"
    by (simp add: case_prod_beta)
  also have "\<dots> = next_number (snd (make_iso_compliant f m)) k
      + int (length (filter (\<lambda>f. is_numbered f \<and> numbering_key f = k) fs))"
    by (rule Cons.IH)
  finally show ?case using step by simp
qed

lemma numbered_name_in_run:
  assumes "j < length files" and "is_numbered (files ! j)"
  shows "fst (iso_names files m) ! j =
           numbering_key (files ! j)
             @ fmt02 (next_number m (numbering_key (files ! j)) + int (earlier_uses files j))
             @ check_ext (upper (snd (splitext (files ! j))))"
    and "snd (iso_names (take (Suc j) files) m) (numbering_key (files ! j)) =
           Some (next_number m (numbering_key (files ! j)) + int (earlier_uses files j) + 1)"
proof -
  let ?k = "numbering_key (files ! j)"
  let ?mj = "snd (iso_names (take j files) m)"
  have n: "next_number ?mj ?k = next_number m ?k + int (earlier_uses files j)"
    by (simp add: next_number_count earlier_uses_def)
  show "fst (iso_names files m) ! j =
      ?k @ fmt02 (next_number m ?k + int (earlier_uses files j))
        @ check_ext (upper (snd (splitext (files ! j))))"
    using assms(2) n by (simp add: iso_names_nth [OF assms(1)] make_iso_compliant_numbered)
  show "snd (iso_names (take (Suc j) files) m) ?k =
      Some (next_number m ?k + int (earlier_uses files j) + 1)"
    using assms(2) n by (simp add: iso_names_take_Suc [OF assms(1)] make_iso_compliant_numbered)
qed

text \<open>
  C3 (as the code has it). A numbered file whose key the dictionary does not have gets
  the number 01 and leaves 2 under the key; one whose key holds \<open>n\<close> gets \<open>n\<close> and leaves
  \<open>n + 1\<close>. Within a run (the calls of \<open>iso_names\<close>, from the dictionary \<open>m\<close> the run
  starts with), a numbered file gets the number \<open>m\<close> holds for its key (1 when \<open>m\<close> does
  not have the key) plus the number of earlier numbered files of the run with the same
  key, and leaves the next integer under the key. So in a run that starts without the
  key, as every run from the empty dictionary does, the first numbered file with the
  key gets 01 and leaves 2. Of two numbered files with the same key the later one gets a
  larger number and a different name.
\<close>

theorem C3_sequence_numbers:
  "(is_numbered file \<and> m (numbering_key file) = None \<longrightarrow>
      make_iso_compliant file m =
        (numbering_key file @ ''01'' @ check_ext (upper (snd (splitext file))),
         m(numbering_key file \<mapsto> 2)))
   \<and> (is_numbered file \<and> m (numbering_key file) = Some n \<longrightarrow>
      make_iso_compliant file m =
        (numbering_key file @ fmt02 n @ check_ext (upper (snd (splitext file))),
         m(numbering_key file \<mapsto> n + 1)))
   \<and> (j < length files \<and> is_numbered (files ! j) \<longrightarrow>
      fst (iso_names files m) ! j =
        numbering_key (files ! j)
          @ fmt02 (next_number m (numbering_key (files ! j)) + int (earlier_uses files j))
          @ check_ext (upper (snd (splitext (files ! j))))
      \<and> snd (iso_names (take (Suc j) files) m) (numbering_key (files ! j)) =
          Some (next_number m (numbering_key (files ! j)) + int (earlier_uses files j) + 1))
   \<and> (j < length files \<and> is_numbered (files ! j) \<and> earlier_uses files j = 0
        \<and> m (numbering_key (files ! j)) = None \<longrightarrow>
      fst (iso_names files m) ! j =
        numbering_key (files ! j) @ ''01'' @ check_ext (upper (snd (splitext (files ! j))))
      \<and> snd (iso_names (take (Suc j) files) m) (numbering_key (files ! j)) = Some 2)
   \<and> (j < length files \<and> is_numbered (files ! j) \<and> earlier_uses files j = 0 \<longrightarrow>
      fst (iso_names files ISO_NUMBERING_init) ! j =
        numbering_key (files ! j) @ ''01'' @ check_ext (upper (snd (splitext (files ! j))))
      \<and> snd (iso_names (take (Suc j) files) ISO_NUMBERING_init) (numbering_key (files ! j))
          = Some 2)
   \<and> (i < j \<and> j < length files \<and> is_numbered (files ! i) \<and> is_numbered (files ! j)
        \<and> numbering_key (files ! i) = numbering_key (files ! j) \<longrightarrow>
      fst (iso_names files m) ! i =
        numbering_key (files ! i)
          @ fmt02 (next_number (snd (iso_names (take i files) m)) (numbering_key (files ! i)))
          @ check_ext (upper (snd (splitext (files ! i))))
      \<and> fst (iso_names files m) ! j =
        numbering_key (files ! j)
          @ fmt02 (next_number (snd (iso_names (take j files) m)) (numbering_key (files ! j)))
          @ check_ext (upper (snd (splitext (files ! j))))
      \<and> next_number (snd (iso_names (take i files) m)) (numbering_key (files ! i))
          < next_number (snd (iso_names (take j files) m)) (numbering_key (files ! j))
      \<and> fst (iso_names files m) ! i \<noteq> fst (iso_names files m) ! j)"
proof (intro conjI impI)
  have f1: "fmt02 1 = ''01''" by code_simp
  show "make_iso_compliant file m =
        (numbering_key file @ ''01'' @ check_ext (upper (snd (splitext file))),
         m(numbering_key file \<mapsto> 2))"
    if "is_numbered file \<and> m (numbering_key file) = None"
    using that f1 by (simp add: make_iso_compliant_numbered next_number_def)
  show "make_iso_compliant file m =
        (numbering_key file @ fmt02 n @ check_ext (upper (snd (splitext file))),
         m(numbering_key file \<mapsto> n + 1))"
    if "is_numbered file \<and> m (numbering_key file) = Some n"
    using that by (simp add: make_iso_compliant_numbered next_number_def)
  show "fst (iso_names files m) ! j =
        numbering_key (files ! j)
          @ fmt02 (next_number m (numbering_key (files ! j)) + int (earlier_uses files j))
          @ check_ext (upper (snd (splitext (files ! j))))"
    if "j < length files \<and> is_numbered (files ! j)"
    using that numbered_name_in_run(1) by blast
  show "snd (iso_names (take (Suc j) files) m) (numbering_key (files ! j)) =
          Some (next_number m (numbering_key (files ! j)) + int (earlier_uses files j) + 1)"
    if "j < length files \<and> is_numbered (files ! j)"
    using that numbered_name_in_run(2) by blast
  have first: "fst (iso_names files m') ! j =
        numbering_key (files ! j) @ ''01'' @ check_ext (upper (snd (splitext (files ! j))))
      \<and> snd (iso_names (take (Suc j) files) m') (numbering_key (files ! j)) = Some 2"
    if "j < length files" "is_numbered (files ! j)" "earlier_uses files j = 0"
      "m' (numbering_key (files ! j)) = None" for m'
  proof -
    have "next_number m' (numbering_key (files ! j)) = 1"
      using that(4) by (simp add: next_number_def)
    then show ?thesis
      using numbered_name_in_run [OF that(1,2), of m'] that(3) f1 by simp
  qed
  show "fst (iso_names files m) ! j =
        numbering_key (files ! j) @ ''01'' @ check_ext (upper (snd (splitext (files ! j))))"
    if "j < length files \<and> is_numbered (files ! j) \<and> earlier_uses files j = 0
        \<and> m (numbering_key (files ! j)) = None"
    using that first by blast
  show "snd (iso_names (take (Suc j) files) m) (numbering_key (files ! j)) = Some 2"
    if "j < length files \<and> is_numbered (files ! j) \<and> earlier_uses files j = 0
        \<and> m (numbering_key (files ! j)) = None"
    using that first by blast
  have init: "ISO_NUMBERING_init k = None" for k by (simp add: ISO_NUMBERING_init_def)
  have first_init: "fst (iso_names files ISO_NUMBERING_init) ! j =
        numbering_key (files ! j) @ ''01'' @ check_ext (upper (snd (splitext (files ! j))))
      \<and> snd (iso_names (take (Suc j) files) ISO_NUMBERING_init) (numbering_key (files ! j))
          = Some 2"
    if "j < length files" "is_numbered (files ! j)" "earlier_uses files j = 0"
    by (rule first [OF that init])
  show "fst (iso_names files ISO_NUMBERING_init) ! j =
        numbering_key (files ! j) @ ''01'' @ check_ext (upper (snd (splitext (files ! j))))"
    if "j < length files \<and> is_numbered (files ! j) \<and> earlier_uses files j = 0"
    using that first_init by (elim conjE) (rule conjunct1)
  show "snd (iso_names (take (Suc j) files) ISO_NUMBERING_init) (numbering_key (files ! j))
          = Some 2"
    if "j < length files \<and> is_numbered (files ! j) \<and> earlier_uses files j = 0"
    using that first_init by (elim conjE) (rule conjunct2)
next
  assume a: "i < j \<and> j < length files \<and> is_numbered (files ! i) \<and> is_numbered (files ! j)
        \<and> numbering_key (files ! i) = numbering_key (files ! j)"
  define k where "k = numbering_key (files ! i)"
  define mi where "mi = snd (iso_names (take i files) m)"
  define mj where "mj = snd (iso_names (take j files) m)"
  from a have ij: "i < j" and j: "j < length files" and i: "i < length files"
    and ni: "is_numbered (files ! i)" and nj: "is_numbered (files ! j)"
    and kj: "numbering_key (files ! j) = k"
    by (simp_all add: k_def)
  show name_i: "fst (iso_names files m) ! i =
        numbering_key (files ! i)
          @ fmt02 (next_number (snd (iso_names (take i files) m)) (numbering_key (files ! i)))
          @ check_ext (upper (snd (splitext (files ! i))))"
    using ni by (simp add: iso_names_nth [OF i] make_iso_compliant_numbered)
  show name_j: "fst (iso_names files m) ! j =
        numbering_key (files ! j)
          @ fmt02 (next_number (snd (iso_names (take j files) m)) (numbering_key (files ! j)))
          @ check_ext (upper (snd (splitext (files ! j))))"
    using nj by (simp add: iso_names_nth [OF j] make_iso_compliant_numbered)
  have "next_number (snd (iso_names (take (Suc i) files) m)) k = next_number mi k + 1"
    using ni by (simp add: iso_names_take_Suc [OF i] next_number_step_strict k_def mi_def)
  moreover have "next_number (snd (iso_names (take (Suc i) files) m)) k \<le> next_number mj k"
    unfolding mj_def using ij by (intro next_number_between) simp
  ultimately have less: "next_number mi k < next_number mj k" by simp
  then show "next_number (snd (iso_names (take i files) m)) (numbering_key (files ! i))
          < next_number (snd (iso_names (take j files) m)) (numbering_key (files ! j))"
    by (simp add: kj mi_def mj_def k_def [symmetric])
  show "fst (iso_names files m) ! i \<noteq> fst (iso_names files m) ! j"
  proof
    assume eq: "fst (iso_names files m) ! i = fst (iso_names files m) ! j"
    have "k @ fmt02 (next_number mi k) @ check_ext (upper (snd (splitext (files ! i))))
        = k @ fmt02 (next_number mj k) @ check_ext (upper (snd (splitext (files ! j))))"
      using eq name_i name_j by (simp add: kj mi_def mj_def k_def [symmetric])
    then have "next_number mi k = next_number mj k"
      by (rule numbered_names_differ [OF final_ext_cases final_ext_cases])
    with less show False by simp
  qed
qed

theorem C3_witness:
  "fst (iso_names [''limine-uefi-cd.bin'', ''limine.cfg'', ''limine-bios-cd.bin''] ISO_NUMBERING_init)
     = [''LIMINE01.BIN'', ''LIMINE.CFG'', ''LIMINE02.BIN'']
   \<and> fst (iso_names [''limine-uefi-cd.bin'', ''limine.cfg'', ''limine-bios-cd.bin'']
        ISO_NUMBERING_init) ! 0 = ''LIMINE'' @ ''01'' @ ''.BIN''
   \<and> snd (iso_names (take (Suc 0) [''limine-uefi-cd.bin'', ''limine.cfg'', ''limine-bios-cd.bin''])
        ISO_NUMBERING_init) ''LIMINE'' = Some 2
   \<and> snd (iso_names (take (Suc 2) [''limine-uefi-cd.bin'', ''limine.cfg'', ''limine-bios-cd.bin''])
        ISO_NUMBERING_init) ''LIMINE'' = Some 3
   \<and> make_iso_compliant ''limine-bios.sys'' (ISO_NUMBERING_init(''LIMINE'' \<mapsto> 3))
     = (''LIMINE03.SYS'', (ISO_NUMBERING_init(''LIMINE'' \<mapsto> 3))(''LIMINE'' \<mapsto> 4))
   \<and> make_iso_compliant ''limine-bios.sys'' ISO_NUMBERING_init
     = (''LIMINE01.SYS'', ISO_NUMBERING_init(''LIMINE'' \<mapsto> 2))
   \<and> fst (iso_names [''limine-uefi-cd.bin'', ''limine.cfg'', ''limine-bios-cd.bin''] ISO_NUMBERING_init) ! 0
     \<noteq> fst (iso_names [''limine-uefi-cd.bin'', ''limine.cfg'', ''limine-bios-cd.bin''] ISO_NUMBERING_init) ! 2"
proof -
  let ?fs = "[''limine-uefi-cd.bin'', ''limine.cfg'', ''limine-bios-cd.bin'']"
  have names: "fst (iso_names ?fs ISO_NUMBERING_init)
     = [''LIMINE01.BIN'', ''LIMINE.CFG'', ''LIMINE02.BIN'']" by code_simp
  have hyp: "(0::nat) < 2 \<and> 2 < length ?fs \<and> is_numbered (?fs ! 0) \<and> is_numbered (?fs ! 2)
      \<and> numbering_key (?fs ! 0) = numbering_key (?fs ! 2)" by code_simp
  have h0: "0 < length ?fs \<and> is_numbered (?fs ! 0) \<and> earlier_uses ?fs 0 = 0" by code_simp
  have h2: "2 < length ?fs \<and> is_numbered (?fs ! 2)" by code_simp
  have e2: "earlier_uses ?fs 2 = 1" by code_simp
  have k0: "numbering_key (?fs ! 0) = ''LIMINE''" by code_simp
  have k2: "numbering_key (?fs ! 2) = ''LIMINE''" by code_simp
  have x0: "check_ext (upper (snd (splitext (?fs ! 0)))) = ''.BIN''" by code_simp
  have n0: "next_number ISO_NUMBERING_init ''LIMINE'' = 1"
    by (simp add: next_number_def ISO_NUMBERING_init_def)
  have num: "is_numbered ''limine-bios.sys''" by code_simp
  have key: "numbering_key ''limine-bios.sys'' = ''LIMINE''" by code_simp
  have ext: "check_ext (upper (snd (splitext ''limine-bios.sys''))) = ''.SYS''" by code_simp
  have f3: "fmt02 3 = ''03''" by code_simp
  note at0 = C3_sequence_numbers [where j = 0 and files = ?fs]
  note at2 = C3_sequence_numbers [where i = 0 and j = 2 and files = ?fs and m = ISO_NUMBERING_init]
  have first: "fst (iso_names ?fs ISO_NUMBERING_init) ! 0 = ''LIMINE'' @ ''01'' @ ''.BIN''
      \<and> snd (iso_names (take (Suc 0) ?fs) ISO_NUMBERING_init) ''LIMINE'' = Some 2"
    using mp [OF at0 [THEN conjunct2, THEN conjunct2, THEN conjunct2, THEN conjunct2,
        THEN conjunct1] h0]
    by (simp only: k0 x0)
  have "snd (iso_names (take (Suc 2) ?fs) ISO_NUMBERING_init) (numbering_key (?fs ! 2)) =
      Some (next_number ISO_NUMBERING_init (numbering_key (?fs ! 2)) + int (earlier_uses ?fs 2) + 1)"
    using mp [OF at2 [THEN conjunct2, THEN conjunct2, THEN conjunct1] h2] by (rule conjunct2)
  then have "snd (iso_names (take (Suc 2) ?fs) ISO_NUMBERING_init) ''LIMINE'' = Some (1 + int 1 + 1)"
    by (simp only: k2 e2 n0)
  then have later: "snd (iso_names (take (Suc 2) ?fs) ISO_NUMBERING_init) ''LIMINE'' = Some 3"
    by simp
  have differ: "fst (iso_names ?fs ISO_NUMBERING_init) ! 0 \<noteq> fst (iso_names ?fs ISO_NUMBERING_init) ! 2"
    using mp [OF at2 [THEN conjunct2, THEN conjunct2, THEN conjunct2, THEN conjunct2,
        THEN conjunct2] hyp]
    by blast
  have some: "make_iso_compliant ''limine-bios.sys'' (ISO_NUMBERING_init(''LIMINE'' \<mapsto> 3))
     = (''LIMINE03.SYS'', (ISO_NUMBERING_init(''LIMINE'' \<mapsto> 3))(''LIMINE'' \<mapsto> 4))"
    using C3_sequence_numbers [of "''limine-bios.sys''" "ISO_NUMBERING_init(''LIMINE'' \<mapsto> 3)" 3,
        THEN conjunct2, THEN conjunct1] num
    by (simp add: key ext f3)
  have none: "make_iso_compliant ''limine-bios.sys'' ISO_NUMBERING_init
     = (''LIMINE01.SYS'', ISO_NUMBERING_init(''LIMINE'' \<mapsto> 2))"
    using C3_sequence_numbers [of "''limine-bios.sys''" ISO_NUMBERING_init, THEN conjunct1] num
    by (simp add: key ext ISO_NUMBERING_init_def)
  show ?thesis using names first later some none differ by blast
qed

text \<open>
  C3, the claim as written, fails: in the second run of a process the dictionary is
  the one the first run left, and the first numbered file of that run with the key
  \<open>LIMINE\<close> gets the number 03, not 01.
\<close>

theorem C3_counterexample:
  "fst (second_run stub_lib LimineBootloader ''a.iso'' minimal_disk) = Inr ()
   \<and> walk_files (walk ''disk'' minimal_disk) = [''limine-uefi-cd.bin'', ''limine-bios-cd.bin'']
   \<and> is_numbered ''limine-uefi-cd.bin''
   \<and> numbering_key ''limine-uefi-cd.bin'' = ''LIMINE''
   \<and> calls (snd (second_run stub_lib LimineBootloader ''a.iso'' minimal_disk)) ! 2
     = AddFile ''disk/limine/limine-uefi-cd.bin'' ''/LIMINE/LIMINE03.BIN;1'' ''limine-uefi-cd.bin''"
  by code_simp

section \<open>The calls of a run\<close>





lemma invoke_call_numbering: "iso_numbering (snd (invoke_call lib c s)) = iso_numbering s"
  by (simp add: invoke_call_def split: sum.splits prod.splits)


lemma add_directories_numbering:
  "iso_numbering (snd (add_directories lib root dirs s)) = iso_numbering s"
proof (induction dirs arbitrary: s)
  case Nil
  then show ?case by simp
next
  case (Cons d ds)
  let ?c = "AddDirectory (root @ ''/'' @ upper d) d"
  obtain r s1 where m: "invoke_call lib ?c s = (r, s1)" by (cases "invoke_call lib ?c s")
  have "iso_numbering s1 = iso_numbering s" using invoke_call_numbering [of lib ?c s] m by simp
  then show ?case using m Cons.IH [of s1]
    by (cases r) (simp_all add: and_then_def)
qed


lemma add_files_numbering:
  "add_files lib root iso_root files s = (Inr u, s') \<Longrightarrow>
   iso_numbering s' = snd (iso_names files (iso_numbering s))"
proof (induction files arbitrary: s)
  case Nil
  then show ?case by simp
next
  case (Cons f fs)
  let ?m = "iso_numbering s"
  let ?c = "AddFile (path_join root f) (iso_root @ ''/'' @ fst (make_iso_compliant f ?m) @ '';1'') f"
  let ?s0 = "s\<lparr>iso_numbering := snd (make_iso_compliant f ?m)\<rparr>"
  obtain r s1 where m: "invoke_call lib ?c ?s0 = (r, s1)" by (cases "invoke_call lib ?c ?s0")
  have n1: "iso_numbering s1 = snd (make_iso_compliant f ?m)"
    using invoke_call_numbering [of lib ?c ?s0] m by simp
  have unfold: "add_files lib root iso_root (f # fs) s
      = and_then (r, s1) (\<lambda>_. add_files lib root iso_root fs)"
    using m by (simp add: case_prod_beta)
  show ?case
  proof (cases r)
    case (Inl e)
    with Cons.prems unfold show ?thesis by (simp add: and_then_def)
  next
    case (Inr a)
    with Cons.prems unfold have "add_files lib root iso_root fs s1 = (Inr u, s')"
      by (simp add: and_then_def)
    then have "iso_numbering s' = snd (iso_names fs (iso_numbering s1))" by (rule Cons.IH)
    then show ?thesis using n1 by (simp add: case_prod_beta)
  qed
qed

lemma grows_refl: "grows m m"
  by (simp add: grows_def)

lemma grows_trans: "grows a b \<Longrightarrow> grows b c \<Longrightarrow> grows a c"
  unfolding grows_def by (meson order_trans)

lemma make_iso_compliant_grows: "grows m (snd (make_iso_compliant file m))"
proof (cases "is_numbered file")
  case True
  then show ?thesis
    by (auto simp: make_iso_compliant_numbered grows_def next_number_def)
next
  case False
  then show ?thesis by (simp add: make_iso_compliant_kept grows_refl)
qed

lemma iso_names_grows: "grows m (snd (iso_names files m))"
proof (induction files arbitrary: m)
  case Nil
  then show ?case by (simp add: grows_refl)
next
  case (Cons f fs)
  have "grows m (snd (make_iso_compliant f m))" by (rule make_iso_compliant_grows)
  moreover have "grows (snd (make_iso_compliant f m))
      (snd (iso_names fs (snd (make_iso_compliant f m))))" by (rule Cons.IH)
  ultimately have "grows m (snd (iso_names fs (snd (make_iso_compliant f m))))"
    by (rule grows_trans)
  then show ?case by (simp add: case_prod_beta)
qed

lemma add_files_grows:
  "grows (iso_numbering s) (iso_numbering (snd (add_files lib root iso_root files s)))"
proof (induction files arbitrary: s)
  case Nil
  then show ?case by (simp add: grows_refl)
next
  case (Cons f fs)
  let ?m = "iso_numbering s"
  let ?c = "AddFile (path_join root f) (iso_root @ ''/'' @ fst (make_iso_compliant f ?m) @ '';1'') f"
  let ?s0 = "s\<lparr>iso_numbering := snd (make_iso_compliant f ?m)\<rparr>"
  obtain r s1 where m: "invoke_call lib ?c ?s0 = (r, s1)" by (cases "invoke_call lib ?c ?s0")
  have n1: "iso_numbering s1 = snd (make_iso_compliant f ?m)"
    using invoke_call_numbering [of lib ?c ?s0] m by simp
  then have g1: "grows ?m (iso_numbering s1)" by (simp add: make_iso_compliant_grows)
  have unfold: "add_files lib root iso_root (f # fs) s
      = and_then (r, s1) (\<lambda>_. add_files lib root iso_root fs)"
    using m by (simp add: case_prod_beta)
  show ?case
  proof (cases r)
    case (Inl e)
    with unfold g1 show ?thesis by (simp add: and_then_def)
  next
    case (Inr a)
    with unfold have "snd (add_files lib root iso_root (f # fs) s)
        = snd (add_files lib root iso_root fs s1)" by (simp add: and_then_def)
    then show ?thesis using g1 Cons.IH [of s1] grows_trans by metis
  qed
qed


lemma and_then_Inr:
  "and_then m f = (Inr u, s') \<Longrightarrow> \<exists>a s1. m = (Inr a, s1) \<and> f a s1 = (Inr u, s')"
  by (cases m) (auto simp: and_then_def split: sum.splits)


lemma and_then_grows:
  assumes "grows m0 (iso_numbering (snd m))"
    and "\<And>a s1. m = (Inr a, s1) \<Longrightarrow> grows (iso_numbering s1) (iso_numbering (snd (f a s1)))"
  shows "grows m0 (iso_numbering (snd (and_then m f)))"
proof -
  obtain r s1 where m: "m = (r, s1)" by (cases m)
  show ?thesis
  proof (cases r)
    case (Inl e)
    with m assms(1) show ?thesis by (simp add: and_then_def)
  next
    case (Inr a)
    with m assms(2) have "grows (iso_numbering s1) (iso_numbering (snd (f a s1)))" by simp
    moreover have "grows m0 (iso_numbering s1)" using assms(1) m by simp
    ultimately have "grows m0 (iso_numbering (snd (f a s1)))" using grows_trans by blast
    with Inr m show ?thesis by (simp add: and_then_def)
  qed
qed

lemma walk_loop_grows: "grows (iso_numbering s) (iso_numbering (snd (walk_loop lib w s)))"
proof (induction w arbitrary: s)
  case Nil
  then show ?case by (simp add: grows_refl)
next
  case (Cons t rest)
  obtain root dirs files where t: "t = (root, dirs, files)" by (cases t)
  let ?R = "iso_root_of root"
  have "grows (iso_numbering s) (iso_numbering (snd
      (and_then (add_directories lib ?R dirs s)
        (\<lambda>_ s. and_then (add_files lib root ?R files s) (\<lambda>_. walk_loop lib rest)))))"
  proof (rule and_then_grows)
    show "grows (iso_numbering s) (iso_numbering (snd (add_directories lib ?R dirs s)))"
      by (simp add: add_directories_numbering grows_refl)
  next
    fix a s1
    show "grows (iso_numbering s1) (iso_numbering (snd
        (and_then (add_files lib root ?R files s1) (\<lambda>_. walk_loop lib rest))))"
      by (rule and_then_grows [OF add_files_grows]) (rule Cons.IH)
  qed
  then show ?case by (simp add: t Let_def)
qed

lemma walk_loop_numbering:
  "walk_loop lib w s = (Inr u, s') \<Longrightarrow>
   iso_numbering s' = snd (iso_names (walk_files w) (iso_numbering s))"
proof (induction w arbitrary: s)
  case Nil
  then show ?case by simp
next
  case (Cons t rest)
  obtain root dirs files where t: "t = (root, dirs, files)" by (cases t)
  let ?R = "iso_root_of root"
  from Cons.prems t have "and_then (add_directories lib ?R dirs s)
      (\<lambda>_ s. and_then (add_files lib root ?R files s) (\<lambda>_. walk_loop lib rest)) = (Inr u, s')"
    by (simp add: Let_def)
  then obtain a s1 where
    1: "add_directories lib ?R dirs s = (Inr a, s1)" and
    rest1: "and_then (add_files lib root ?R files s1) (\<lambda>_. walk_loop lib rest) = (Inr u, s')"
    using and_then_Inr by fastforce
  from rest1 obtain b s2 where
    2: "add_files lib root ?R files s1 = (Inr b, s2)" and
    3: "walk_loop lib rest s2 = (Inr u, s')"
    using and_then_Inr by fastforce
  have "iso_numbering s1 = iso_numbering s"
    using add_directories_numbering [of lib ?R dirs s] 1 by simp
  moreover have "iso_numbering s2 = snd (iso_names files (iso_numbering s1))"
    using 2 by (rule add_files_numbering)
  moreover have "iso_numbering s' = snd (iso_names (walk_files rest) (iso_numbering s2))"
    using 3 by (rule Cons.IH)
  ultimately show ?case by (simp add: t iso_names_append)
qed

section \<open>The boot catalog and the whole run\<close>

lemma invoke_call_Inr:
  "invoke_call lib c s = (Inr r, s1) \<Longrightarrow>
   \<exists>img. invoke lib c (iso s) = Inr (r, img) \<and> s1 = s\<lparr>iso := img, calls := calls s @ [c]\<rparr>"
  by (auto simp: invoke_call_def split: sum.splits prod.splits)


lemma limine_boot_calls_boot: "list_all is_boot_call (limine_boot_calls lib s)"
  by (simp add: limine_boot_calls_def Let_def)

lemma invoke_call_grows: "grows (iso_numbering s) (iso_numbering (snd (invoke_call lib c s)))"
  by (simp add: invoke_call_numbering grows_refl)

lemma make_bootable_grows:
  "grows (iso_numbering s) (iso_numbering (snd (make_bootable bl lib s)))"
proof (cases bl)
  case LimineBootloader
  show ?thesis
    unfolding LimineBootloader make_bootable.simps
    by (intro and_then_grows invoke_call_grows) (simp add: grows_refl)
qed

lemma make_bootable_numbering:
  assumes "make_bootable bl lib s = (Inr u, s')"
  shows "iso_numbering s' = iso_numbering s"
proof (cases bl)
  case LimineBootloader
  from assms [unfolded LimineBootloader make_bootable.simps]
  obtain a1 s1 where 1: "invoke_call lib (GetRecord ''/limine/limine-bios-cd.bin'') s = (Inr a1, s1)"
    and r1: "and_then (invoke_call lib (AddEltorito (''/LIMINE/'' @ a1) ''noemul'' 4 True None) s1)
          (\<lambda>_ s. and_then (invoke_call lib (GetRecord ''/limine/limine-uefi-cd.bin'') s)
            (\<lambda>file_ident s. and_then
              (invoke_call lib (AddEltorito (''/LIMINE/'' @ file_ident) ''noemul'' 4 True (Some True)) s)
              (\<lambda>_ s. (Inr (), s)))) = (Inr u, s')"
    using and_then_Inr by fastforce
  from r1 obtain a2 s2 where
    2: "invoke_call lib (AddEltorito (''/LIMINE/'' @ a1) ''noemul'' 4 True None) s1 = (Inr a2, s2)"
    and r2: "and_then (invoke_call lib (GetRecord ''/limine/limine-uefi-cd.bin'') s2)
            (\<lambda>file_ident s. and_then
              (invoke_call lib (AddEltorito (''/LIMINE/'' @ file_ident) ''noemul'' 4 True (Some True)) s)
              (\<lambda>_ s. (Inr (), s))) = (Inr u, s')"
    using and_then_Inr by fastforce
  from r2 obtain a3 s3 where
    3: "invoke_call lib (GetRecord ''/limine/limine-uefi-cd.bin'') s2 = (Inr a3, s3)"
    and r3: "and_then
              (invoke_call lib (AddEltorito (''/LIMINE/'' @ a3) ''noemul'' 4 True (Some True)) s3)
              (\<lambda>_ s. (Inr (), s)) = (Inr u, s')"
    using and_then_Inr by fastforce
  from r3 obtain a4 where
    4: "invoke_call lib (AddEltorito (''/LIMINE/'' @ a3) ''noemul'' 4 True (Some True)) s3 = (Inr a4, s')"
    using and_then_Inr by fastforce
  show ?thesis
    using invoke_call_numbering [of lib _ s] invoke_call_numbering [of lib _ s1]
      invoke_call_numbering [of lib _ s2] invoke_call_numbering [of lib _ s3] 1 2 3 4
    by (metis snd_conv)
qed

lemma make_bootable_steps:
  assumes "make_bootable LimineBootloader lib s = (Inr u, s')"
  shows "\<exists>a1 s1 a2 s2 a3 s3 a4.
      invoke_call lib (GetRecord ''/limine/limine-bios-cd.bin'') s = (Inr a1, s1)
    \<and> invoke_call lib (AddEltorito (''/LIMINE/'' @ a1) ''noemul'' 4 True None) s1 = (Inr a2, s2)
    \<and> invoke_call lib (GetRecord ''/limine/limine-uefi-cd.bin'') s2 = (Inr a3, s3)
    \<and> invoke_call lib (AddEltorito (''/LIMINE/'' @ a3) ''noemul'' 4 True (Some True)) s3
        = (Inr a4, s')"
proof -
  from assms [unfolded make_bootable.simps]
  obtain a1 s1 where 1: "invoke_call lib (GetRecord ''/limine/limine-bios-cd.bin'') s = (Inr a1, s1)"
    and r1: "and_then (invoke_call lib (AddEltorito (''/LIMINE/'' @ a1) ''noemul'' 4 True None) s1)
          (\<lambda>_ s. and_then (invoke_call lib (GetRecord ''/limine/limine-uefi-cd.bin'') s)
            (\<lambda>file_ident s. and_then
              (invoke_call lib (AddEltorito (''/LIMINE/'' @ file_ident) ''noemul'' 4 True (Some True)) s)
              (\<lambda>_ s. (Inr (), s)))) = (Inr u, s')"
    using and_then_Inr by fastforce
  from r1 obtain a2 s2 where
    2: "invoke_call lib (AddEltorito (''/LIMINE/'' @ a1) ''noemul'' 4 True None) s1 = (Inr a2, s2)"
    and r2: "and_then (invoke_call lib (GetRecord ''/limine/limine-uefi-cd.bin'') s2)
            (\<lambda>file_ident s. and_then
              (invoke_call lib (AddEltorito (''/LIMINE/'' @ file_ident) ''noemul'' 4 True (Some True)) s)
              (\<lambda>_ s. (Inr (), s))) = (Inr u, s')"
    using and_then_Inr by fastforce
  from r2 obtain a3 s3 where
    3: "invoke_call lib (GetRecord ''/limine/limine-uefi-cd.bin'') s2 = (Inr a3, s3)"
    and r3: "and_then
              (invoke_call lib (AddEltorito (''/LIMINE/'' @ a3) ''noemul'' 4 True (Some True)) s3)
              (\<lambda>_ s. (Inr (), s)) = (Inr u, s')"
    using and_then_Inr by fastforce
  from r3 obtain a4 where
    4: "invoke_call lib (AddEltorito (''/LIMINE/'' @ a3) ''noemul'' 4 True (Some True)) s3 = (Inr a4, s')"
    using and_then_Inr by fastforce
  from 1 2 3 4 show ?thesis by blast
qed

text \<open>
  C9. When \<open>make_bootable\<close> of the Limine loader returns, it has made four calls, in
  this order: \<open>get_record\<close> for the staged BIOS loader, \<open>add_eltorito\<close> for the record it
  returned (media \<open>noemul\<close>, boot load size 4, boot info table enabled, \<open>efi\<close> not given),
  \<open>get_record\<close> for the staged UEFI loader, and \<open>add_eltorito\<close> for that record (media
  \<open>noemul\<close>, boot load size 4, boot info table enabled, \<open>efi\<close> true). Each call was
  performed by the library on the image the call before left. So exactly two catalog
  entries are registered, the BIOS one first.
\<close>

theorem C9_limine_boot_entries:
  assumes "make_bootable LimineBootloader lib s = (Inr u, s')"
  shows "\<exists>bios_ident uefi_ident r2 r4 img1 img2 img3.
           invoke lib (GetRecord ''/limine/limine-bios-cd.bin'') (iso s) = Inr (bios_ident, img1)
         \<and> invoke lib (AddEltorito (''/LIMINE/'' @ bios_ident) ''noemul'' 4 True None) img1
             = Inr (r2, img2)
         \<and> invoke lib (GetRecord ''/limine/limine-uefi-cd.bin'') img2 = Inr (uefi_ident, img3)
         \<and> invoke lib (AddEltorito (''/LIMINE/'' @ uefi_ident) ''noemul'' 4 True (Some True)) img3
             = Inr (r4, iso s')
         \<and> calls s' = calls s @
             [GetRecord ''/limine/limine-bios-cd.bin'',
              AddEltorito (''/LIMINE/'' @ bios_ident) ''noemul'' 4 True None,
              GetRecord ''/limine/limine-uefi-cd.bin'',
              AddEltorito (''/LIMINE/'' @ uefi_ident) ''noemul'' 4 True (Some True)]
         \<and> filter is_eltorito (drop (length (calls s)) (calls s')) =
             [AddEltorito (''/LIMINE/'' @ bios_ident) ''noemul'' 4 True None,
              AddEltorito (''/LIMINE/'' @ uefi_ident) ''noemul'' 4 True (Some True)]"
proof -
  from make_bootable_steps [OF assms] obtain a1 s1 a2 s2 a3 s3 a4 where
    1: "invoke_call lib (GetRecord ''/limine/limine-bios-cd.bin'') s = (Inr a1, s1)" and
    2: "invoke_call lib (AddEltorito (''/LIMINE/'' @ a1) ''noemul'' 4 True None) s1 = (Inr a2, s2)" and
    3: "invoke_call lib (GetRecord ''/limine/limine-uefi-cd.bin'') s2 = (Inr a3, s3)" and
    4: "invoke_call lib (AddEltorito (''/LIMINE/'' @ a3) ''noemul'' 4 True (Some True)) s3
        = (Inr a4, s')"
    by blast
  from invoke_call_Inr [OF 1] obtain img1 where
    i1: "invoke lib (GetRecord ''/limine/limine-bios-cd.bin'') (iso s) = Inr (a1, img1)"
    and s1: "s1 = s\<lparr>iso := img1, calls := calls s @ [GetRecord ''/limine/limine-bios-cd.bin'']\<rparr>"
    by blast
  from invoke_call_Inr [OF 2] obtain img2 where
    i2: "invoke lib (AddEltorito (''/LIMINE/'' @ a1) ''noemul'' 4 True None) (iso s1) = Inr (a2, img2)"
    and s2: "s2 = s1\<lparr>iso := img2,
        calls := calls s1 @ [AddEltorito (''/LIMINE/'' @ a1) ''noemul'' 4 True None]\<rparr>"
    by blast
  from invoke_call_Inr [OF 3] obtain img3 where
    i3: "invoke lib (GetRecord ''/limine/limine-uefi-cd.bin'') (iso s2) = Inr (a3, img3)"
    and s3: "s3 = s2\<lparr>iso := img3, calls := calls s2 @ [GetRecord ''/limine/limine-uefi-cd.bin'']\<rparr>"
    by blast
  from invoke_call_Inr [OF 4] obtain img4 where
    i4: "invoke lib (AddEltorito (''/LIMINE/'' @ a3) ''noemul'' 4 True (Some True)) (iso s3)
        = Inr (a4, img4)"
    and s4: "s' = s3\<lparr>iso := img4,
        calls := calls s3 @ [AddEltorito (''/LIMINE/'' @ a3) ''noemul'' 4 True (Some True)]\<rparr>"
    by blast
  have c: "calls s' = calls s @
             [GetRecord ''/limine/limine-bios-cd.bin'',
              AddEltorito (''/LIMINE/'' @ a1) ''noemul'' 4 True None,
              GetRecord ''/limine/limine-uefi-cd.bin'',
              AddEltorito (''/LIMINE/'' @ a3) ''noemul'' 4 True (Some True)]"
    by (simp add: s1 s2 s3 s4)
  have "invoke lib (AddEltorito (''/LIMINE/'' @ a1) ''noemul'' 4 True None) img1 = Inr (a2, img2)"
    using i2 by (simp add: s1)
  moreover have "invoke lib (GetRecord ''/limine/limine-uefi-cd.bin'') img2 = Inr (a3, img3)"
    using i3 by (simp add: s2)
  moreover have "invoke lib (AddEltorito (''/LIMINE/'' @ a3) ''noemul'' 4 True (Some True)) img3
      = Inr (a4, iso s')"
    using i4 by (simp add: s3 s4)
  moreover have "filter is_eltorito (drop (length (calls s)) (calls s')) =
             [AddEltorito (''/LIMINE/'' @ a1) ''noemul'' 4 True None,
              AddEltorito (''/LIMINE/'' @ a3) ''noemul'' 4 True (Some True)]"
    by (simp add: c)
  ultimately show ?thesis using i1 c by blast
qed

theorem C9_witness:
  "fst (make_bootable LimineBootloader stub_lib staged_state) = Inr ()
   \<and> (\<exists>bios_ident uefi_ident.
        calls (snd (make_bootable LimineBootloader stub_lib staged_state)) = calls staged_state @
             [GetRecord ''/limine/limine-bios-cd.bin'',
              AddEltorito (''/LIMINE/'' @ bios_ident) ''noemul'' 4 True None,
              GetRecord ''/limine/limine-uefi-cd.bin'',
              AddEltorito (''/LIMINE/'' @ uefi_ident) ''noemul'' 4 True (Some True)])
   \<and> catalog (iso (snd (make_bootable LimineBootloader stub_lib staged_state))) =
        [AddEltorito ''/LIMINE/LIMINE02.BIN;1'' ''noemul'' 4 True None,
         AddEltorito ''/LIMINE/LIMINE01.BIN;1'' ''noemul'' 4 True (Some True)]"
proof -
  have ok: "fst (make_bootable LimineBootloader stub_lib staged_state) = Inr ()" by code_simp
  have cat: "catalog (iso (snd (make_bootable LimineBootloader stub_lib staged_state))) =
        [AddEltorito ''/LIMINE/LIMINE02.BIN;1'' ''noemul'' 4 True None,
         AddEltorito ''/LIMINE/LIMINE01.BIN;1'' ''noemul'' 4 True (Some True)]" by code_simp
  have hyp: "make_bootable LimineBootloader stub_lib staged_state
      = (Inr (), snd (make_bootable LimineBootloader stub_lib staged_state))"
    using ok by (metis prod.collapse)
  from C9_limine_boot_entries [OF hyp] have "\<exists>bios_ident uefi_ident.
        calls (snd (make_bootable LimineBootloader stub_lib staged_state)) = calls staged_state @
             [GetRecord ''/limine/limine-bios-cd.bin'',
              AddEltorito (''/LIMINE/'' @ bios_ident) ''noemul'' 4 True None,
              GetRecord ''/limine/limine-uefi-cd.bin'',
              AddEltorito (''/LIMINE/'' @ uefi_ident) ''noemul'' 4 True (Some True)]"
    by blast
  with ok cat show ?thesis by blast
qed







lemma package_disk_dir_grows:
  "grows numb (iso_numbering (snd (package_disk_dir lib bl output disk numb)))"
proof -
  let ?s0 = "\<lparr>iso = PyCdlib lib, calls = [], iso_numbering = numb\<rparr>"
  have "grows (iso_numbering ?s0) (iso_numbering (snd (package_disk_dir lib bl output disk numb)))"
    unfolding package_disk_dir_def
    by (intro and_then_grows invoke_call_grows walk_loop_grows make_bootable_grows)
      (simp add: grows_refl)
  then show ?thesis by simp
qed

lemma package_disk_dir_numbering:
  assumes "package_disk_dir lib bl output disk numb = (Inr u, s)"
  shows "iso_numbering s = snd (iso_names (walk_files (walk ''disk'' disk)) numb)"
proof -
  let ?s0 = "\<lparr>iso = PyCdlib lib, calls = [], iso_numbering = numb\<rparr>"
  from assms [unfolded package_disk_dir_def]
  obtain a1 s1 where 1: "invoke_call lib (New ''1.09'') ?s0 = (Inr a1, s1)"
    and r1: "and_then (walk_loop lib (walk ''disk'' disk) s1)
          (\<lambda>_ s. and_then (make_bootable bl lib s)
             (\<lambda>_ s. and_then (invoke_call lib (WriteFp output) s)
                (\<lambda>_ s. and_then (invoke_call lib Close s)
                   (\<lambda>_ s. (Inr (), s))))) = (Inr u, s)"
    using and_then_Inr by fastforce
  from r1 obtain a2 s2 where 2: "walk_loop lib (walk ''disk'' disk) s1 = (Inr a2, s2)"
    and r2: "and_then (make_bootable bl lib s2)
             (\<lambda>_ s. and_then (invoke_call lib (WriteFp output) s)
                (\<lambda>_ s. and_then (invoke_call lib Close s)
                   (\<lambda>_ s. (Inr (), s)))) = (Inr u, s)"
    using and_then_Inr by fastforce
  from r2 obtain a3 s3 where 3: "make_bootable bl lib s2 = (Inr a3, s3)"
    and r3: "and_then (invoke_call lib (WriteFp output) s3)
                (\<lambda>_ s. and_then (invoke_call lib Close s)
                   (\<lambda>_ s. (Inr (), s))) = (Inr u, s)"
    using and_then_Inr by fastforce
  from r3 obtain a4 s4 where 4: "invoke_call lib (WriteFp output) s3 = (Inr a4, s4)"
    and r4: "and_then (invoke_call lib Close s4) (\<lambda>_ s. (Inr (), s)) = (Inr u, s)"
    using and_then_Inr by fastforce
  from r4 obtain a5 where 5: "invoke_call lib Close s4 = (Inr a5, s)"
    using and_then_Inr by fastforce
  have "iso_numbering s1 = numb" using invoke_call_numbering [of lib "New ''1.09''" ?s0] 1 by simp
  moreover have "iso_numbering s2 = snd (iso_names (walk_files (walk ''disk'' disk)) (iso_numbering s1))"
    using 2 by (rule walk_loop_numbering)
  moreover have "iso_numbering s3 = iso_numbering s2" using 3 by (rule make_bootable_numbering)
  moreover have "iso_numbering s4 = iso_numbering s3"
    using invoke_call_numbering [of lib "WriteFp output" s3] 4 by simp
  moreover have "iso_numbering s = iso_numbering s4"
    using invoke_call_numbering [of lib Close s4] 5 by simp
  ultimately show ?thesis by simp
qed

text \<open>
  C6 (as the code has it). The dictionary is empty when the module is loaded, so the
  first run of a process starts from the empty dictionary. No run resets it: whatever
  the outcome of a run, the dictionary keeps every key it had and no number gets
  smaller; and a run that returns leaves the dictionary the files of its walk produce
  from the one it started with. A later run of the same process starts from there.
\<close>

theorem C6_numbering_persists:
  "ISO_NUMBERING_init = Map.empty
   \<and> grows numb (iso_numbering (snd (package_disk_dir lib bl output disk numb)))
   \<and> (package_disk_dir lib bl output disk numb = (Inr u, s) \<longrightarrow>
        iso_numbering s = snd (iso_names (walk_files (walk ''disk'' disk)) numb))
   \<and> second_run lib bl output disk =
        package_disk_dir lib bl output disk
          (iso_numbering (snd (package_disk_dir lib bl output disk ISO_NUMBERING_init)))"
proof (intro conjI impI)
  show "ISO_NUMBERING_init = Map.empty" by (simp add: ISO_NUMBERING_init_def)
  show "grows numb (iso_numbering (snd (package_disk_dir lib bl output disk numb)))"
    by (rule package_disk_dir_grows)
  show "iso_numbering s = snd (iso_names (walk_files (walk ''disk'' disk)) numb)"
    if "package_disk_dir lib bl output disk numb = (Inr u, s)"
    using that by (rule package_disk_dir_numbering)
  show "second_run lib bl output disk =
        package_disk_dir lib bl output disk
          (iso_numbering (snd (package_disk_dir lib bl output disk ISO_NUMBERING_init)))"
    by (simp add: second_run_def)
qed

theorem C6_witness:
  "fst (package_disk_dir stub_lib LimineBootloader ''a.iso'' minimal_disk
          (ISO_NUMBERING_init(''LIMINE'' \<mapsto> 3))) = Inr ()
   \<and> iso_numbering (snd (package_disk_dir stub_lib LimineBootloader ''a.iso'' minimal_disk
          (ISO_NUMBERING_init(''LIMINE'' \<mapsto> 3)))) ''LIMINE'' = Some 5"
proof -
  let ?numb = "ISO_NUMBERING_init(''LIMINE'' \<mapsto> 3)"
  let ?out = "package_disk_dir stub_lib LimineBootloader ''a.iso'' minimal_disk ?numb"
  have ok: "fst ?out = Inr ()" by code_simp
  then have hyp: "?out = (Inr (), snd ?out)" by (metis prod.collapse)
  have "iso_numbering (snd ?out) = snd (iso_names (walk_files (walk ''disk'' minimal_disk)) ?numb)"
    using C6_numbering_persists [of ?numb stub_lib LimineBootloader "''a.iso''" minimal_disk
        "()" "snd ?out"] hyp by blast
  moreover have "snd (iso_names (walk_files (walk ''disk'' minimal_disk)) ?numb) ''LIMINE'' = Some 5"
    by code_simp
  ultimately show ?thesis using ok by simp
qed

text \<open>
  C6, the claim as written, fails: two runs of one process on the same tree both
  succeed, the first names the UEFI loader file \<open>LIMINE01.BIN\<close>, the second
  \<open>LIMINE03.BIN\<close>; the dictionary was not empty when the second run began.
\<close>

theorem C6_counterexample:
  "fst (package_disk_dir stub_lib LimineBootloader ''a.iso'' minimal_disk ISO_NUMBERING_init) = Inr ()
   \<and> calls (snd (package_disk_dir stub_lib LimineBootloader ''a.iso'' minimal_disk
        ISO_NUMBERING_init)) ! 2
     = AddFile ''disk/limine/limine-uefi-cd.bin'' ''/LIMINE/LIMINE01.BIN;1'' ''limine-uefi-cd.bin''
   \<and> fst (second_run stub_lib LimineBootloader ''a.iso'' minimal_disk) = Inr ()
   \<and> calls (snd (second_run stub_lib LimineBootloader ''a.iso'' minimal_disk)) ! 2
     = AddFile ''disk/limine/limine-uefi-cd.bin'' ''/LIMINE/LIMINE03.BIN;1'' ''limine-uefi-cd.bin''
   \<and> iso_numbering (snd (package_disk_dir stub_lib LimineBootloader ''a.iso'' minimal_disk
        ISO_NUMBERING_init)) ''LIMINE'' = Some 3"
  by code_simp

section \<open>The registries\<close>

text \<open>
  C8. \<open>register\<close> fails when the name is already there, or when the value is not a
  subclass of \<open>Task\<close> (for tasks) or not an instance of \<open>Bootloader\<close> (for bootloaders);
  otherwise it stores the value under the name. \<open>create_task\<close> and \<open>get_bootloader\<close> fail
  on a name that is not there. Every failing call leaves the dictionary as it was. A
  \<open>create_task\<close> that returns gives a new instance of the class registered under the
  name: its identity is the first one not yet in use.
\<close>

theorem C8_registries:
  "(tasks name \<noteq> None \<or> issubclass task ''Task'' \<noteq> Inr True \<longrightarrow>
      (\<exists>e. TaskRegistry_register name task tasks = (Inl e, tasks)))
   \<and> (tasks name = None \<and> issubclass task ''Task'' = Inr True \<longrightarrow>
      TaskRegistry_register name task tasks = (Inr (), tasks(name \<mapsto> task)))
   \<and> (bootloaders name \<noteq> None \<or> \<not> isinstance loader ''Bootloader'' \<longrightarrow>
      (\<exists>e. BootloaderRegistry_register name loader bootloaders = (Inl e, bootloaders)))
   \<and> (bootloaders name = None \<and> isinstance loader ''Bootloader'' \<longrightarrow>
      BootloaderRegistry_register name loader bootloaders = (Inr (), bootloaders(name \<mapsto> loader)))
   \<and> (tasks name = None \<longrightarrow> (\<exists>e. create_task init name tasks n = (Inl e, tasks, n)))
   \<and> (bootloaders name = None \<longrightarrow> (\<exists>e. get_bootloader name bootloaders = (Inl e, bootloaders)))
   \<and> (create_task init name tasks n = (Inl e, tasks', n') \<longrightarrow> tasks' = tasks)
   \<and> (create_task init name tasks n = (Inr v, tasks', n') \<longrightarrow>
      (\<exists>c. tasks name = Some (ClassObj c) \<and> v = Instance n c \<and> n' = Suc n \<and> tasks' = tasks))"
proof (intro conjI impI)
  show "\<exists>e. TaskRegistry_register name task tasks = (Inl e, tasks)"
    if "tasks name \<noteq> None \<or> issubclass task ''Task'' \<noteq> Inr True"
    using that by (auto simp: TaskRegistry_register_def split: sum.splits bool.splits)
  show "TaskRegistry_register name task tasks = (Inr (), tasks(name \<mapsto> task))"
    if "tasks name = None \<and> issubclass task ''Task'' = Inr True"
    using that by (simp add: TaskRegistry_register_def)
  show "\<exists>e. BootloaderRegistry_register name loader bootloaders = (Inl e, bootloaders)"
    if "bootloaders name \<noteq> None \<or> \<not> isinstance loader ''Bootloader''"
    using that by (auto simp: BootloaderRegistry_register_def)
  show "BootloaderRegistry_register name loader bootloaders = (Inr (), bootloaders(name \<mapsto> loader))"
    if "bootloaders name = None \<and> isinstance loader ''Bootloader''"
    using that by (simp add: BootloaderRegistry_register_def)
  show "\<exists>e. create_task init name tasks n = (Inl e, tasks, n)" if "tasks name = None"
    using that by (simp add: create_task_def)
  show "\<exists>e. get_bootloader name bootloaders = (Inl e, bootloaders)" if "bootloaders name = None"
    using that by (simp add: get_bootloader_def)
  show "tasks' = tasks" if "create_task init name tasks n = (Inl e, tasks', n')"
    using that by (auto simp: create_task_def split: option.splits prod.splits)
  show "\<exists>c. tasks name = Some (ClassObj c) \<and> v = Instance n c \<and> n' = Suc n \<and> tasks' = tasks"
    if "create_task init name tasks n = (Inr v, tasks', n')"
  proof -
    from that obtain t where t: "tasks name = Some t"
      and i: "instantiate init t n = (Inr v, n')" and same: "tasks' = tasks"
      by (auto simp: create_task_def split: option.splits prod.splits)
    from i obtain c where "t = ClassObj c" "v = Instance n c" "n' = Suc n"
      by (cases t) (auto split: option.splits)
    with t same show ?thesis by simp
  qed
qed

theorem C8_witness:
  "(\<exists>e. TaskRegistry_register ''pack'' (ClassObj PackagingTask_class)
          [''pack'' \<mapsto> ClassObj PackagingTask_class]
        = (Inl e, [''pack'' \<mapsto> ClassObj PackagingTask_class]))
   \<and> (\<exists>e. TaskRegistry_register ''run'' (ClassObj LimineBootloader_class) Map.empty
        = (Inl e, Map.empty))
   \<and> TaskRegistry_register ''pack'' (ClassObj PackagingTask_class) Map.empty
        = (Inr (), [''pack'' \<mapsto> ClassObj PackagingTask_class])
   \<and> (\<exists>e. BootloaderRegistry_register ''Limine'' (ClassObj LimineBootloader_class) Map.empty
        = (Inl e, Map.empty))
   \<and> BootloaderRegistry_register ''Limine'' (Instance 0 LimineBootloader_class) Map.empty
        = (Inr (), [''Limine'' \<mapsto> Instance 0 LimineBootloader_class])
   \<and> (\<exists>e. create_task (\<lambda>c. None) ''run'' [''pack'' \<mapsto> ClassObj PackagingTask_class] 7
        = (Inl e, [''pack'' \<mapsto> ClassObj PackagingTask_class], 7))
   \<and> (\<exists>e. get_bootloader ''Rust'' [''Limine'' \<mapsto> Instance 0 LimineBootloader_class]
        = (Inl e, [''Limine'' \<mapsto> Instance 0 LimineBootloader_class]))
   \<and> create_task (\<lambda>c. None) ''pack'' [''pack'' \<mapsto> ClassObj PackagingTask_class] 7
        = (Inr (Instance 7 PackagingTask_class), [''pack'' \<mapsto> ClassObj PackagingTask_class], 8)"
proof -
  let ?reg = "[''pack'' \<mapsto> ClassObj PackagingTask_class]"
  let ?boot = "[''Limine'' \<mapsto> Instance 0 LimineBootloader_class]"
  have t1: "issubclass (ClassObj PackagingTask_class) ''Task'' = Inr True"
    by (simp add: PackagingTask_class_def)
  have t2: "issubclass (ClassObj LimineBootloader_class) ''Task'' \<noteq> Inr True"
    by (simp add: LimineBootloader_class_def)
  have b1: "isinstance (Instance 0 LimineBootloader_class) ''Bootloader''"
    by (simp add: LimineBootloader_class_def)
  have b2: "\<not> isinstance (ClassObj LimineBootloader_class) ''Bootloader''" by simp
  have made: "create_task (\<lambda>c. None) ''pack'' ?reg 7 = (Inr (Instance 7 PackagingTask_class), ?reg, 8)"
    by (simp add: create_task_def)
  have 1: "\<exists>e. TaskRegistry_register ''pack'' (ClassObj PackagingTask_class) ?reg = (Inl e, ?reg)"
    using C8_registries [where tasks = ?reg and name = "''pack''"
        and task = "ClassObj PackagingTask_class"] by simp
  have 2: "\<exists>e. TaskRegistry_register ''run'' (ClassObj LimineBootloader_class) Map.empty
        = (Inl e, Map.empty)"
    using C8_registries [where tasks = Map.empty and name = "''run''"
        and task = "ClassObj LimineBootloader_class"] t2 by blast
  have 3: "TaskRegistry_register ''pack'' (ClassObj PackagingTask_class) Map.empty = (Inr (), ?reg)"
    using C8_registries [where tasks = Map.empty and name = "''pack''"
        and task = "ClassObj PackagingTask_class"] t1 by simp
  have 4: "\<exists>e. BootloaderRegistry_register ''Limine'' (ClassObj LimineBootloader_class) Map.empty
        = (Inl e, Map.empty)"
    using C8_registries [where bootloaders = Map.empty and name = "''Limine''"
        and loader = "ClassObj LimineBootloader_class"] b2 by blast
  have 5: "BootloaderRegistry_register ''Limine'' (Instance 0 LimineBootloader_class) Map.empty
        = (Inr (), ?boot)"
    using C8_registries [where bootloaders = Map.empty and name = "''Limine''"
        and loader = "Instance 0 LimineBootloader_class"] b1 by simp
  have 6: "\<exists>e. create_task (\<lambda>c. None) ''run'' ?reg 7 = (Inl e, ?reg, 7)"
    using C8_registries [where tasks = ?reg and name = "''run''" and init = "\<lambda>c. None"
        and n = 7] by simp
  have 7: "\<exists>e. get_bootloader ''Rust'' ?boot = (Inl e, ?boot)"
    using C8_registries [where bootloaders = ?boot and name = "''Rust''"] by simp
  have 8: "\<exists>c. ?reg ''pack'' = Some (ClassObj c) \<and> Instance 7 PackagingTask_class = Instance 7 c"
    using C8_registries [where tasks = ?reg and name = "''pack''" and init = "\<lambda>c. None"
        and n = 7 and v = "Instance 7 PackagingTask_class" and tasks' = ?reg and n' = 8] made
    by blast
  from 1 2 3 4 5 6 7 made show ?thesis by (intro conjI)
qed

section \<open>Copying a file when it is newer\<close>

text \<open>
  C4 (as the code has it). For a source that exists: \<open>test_or_copy\<close> copies it over the
  target when the target does not exist or is strictly older than the source, and the
  target then has the content of the source and the time of the write; it does nothing
  when the target exists and is as new as the source or newer. A second call right
  after the first does nothing, provided the modification time of the source is not
  later than the time the first call wrote the target at.
\<close>

theorem C4_test_or_copy:
  assumes "fs_files fs copy = Some (copy_time, content)"
  shows "(fs_files fs target = None \<or> (\<exists>t d. fs_files fs target = Some (t, d) \<and> t < copy_time) \<longrightarrow>
            test_or_copy now target copy fs =
              (Inr (), fs\<lparr>fs_files := (fs_files fs)(target \<mapsto> (now, content)),
                           fs_copied := fs_copied fs @ [(copy, target)]\<rparr>))
         \<and> ((\<exists>t d. fs_files fs target = Some (t, d) \<and> copy_time \<le> t) \<longrightarrow>
            test_or_copy now target copy fs = (Inr (), fs))
         \<and> (copy_time \<le> now \<longrightarrow>
            test_or_copy now' target copy (snd (test_or_copy now target copy fs))
              = (Inr (), snd (test_or_copy now target copy fs)))"
proof (intro conjI impI)
  have copied: "test_or_copy now target copy fs =
      (Inr (), fs\<lparr>fs_files := (fs_files fs)(target \<mapsto> (now, content)),
                   fs_copied := fs_copied fs @ [(copy, target)]\<rparr>)"
    if "fs_files fs target = None \<or> (\<exists>t d. fs_files fs target = Some (t, d) \<and> t < copy_time)"
    using that assms
    by (auto simp: test_or_copy_def path_exists_def getmtime_def copyfile_def)
  have kept: "test_or_copy nw target copy fs = (Inr (), fs)"
    if "\<exists>t d. fs_files fs target = Some (t, d) \<and> copy_time \<le> t" for nw
    using that assms
    by (auto simp: test_or_copy_def path_exists_def getmtime_def copyfile_def)
  show "test_or_copy now target copy fs =
      (Inr (), fs\<lparr>fs_files := (fs_files fs)(target \<mapsto> (now, content)),
                   fs_copied := fs_copied fs @ [(copy, target)]\<rparr>)"
    if "fs_files fs target = None \<or> (\<exists>t d. fs_files fs target = Some (t, d) \<and> t < copy_time)"
    using that by (rule copied)
  show "test_or_copy now target copy fs = (Inr (), fs)"
    if "\<exists>t d. fs_files fs target = Some (t, d) \<and> copy_time \<le> t"
    using that by (rule kept)
  show "test_or_copy now' target copy (snd (test_or_copy now target copy fs))
      = (Inr (), snd (test_or_copy now target copy fs))"
    if le: "copy_time \<le> now"
  proof (cases "fs_files fs target = None \<or> (\<exists>t d. fs_files fs target = Some (t, d) \<and> t < copy_time)")
    case True
    let ?fs' = "fs\<lparr>fs_files := (fs_files fs)(target \<mapsto> (now, content)),
                   fs_copied := fs_copied fs @ [(copy, target)]\<rparr>"
    have ne: "copy \<noteq> target" using True assms by auto
    have first: "test_or_copy now target copy fs = (Inr (), ?fs')" using True by (rule copied)
    have "test_or_copy now' target copy ?fs' = (Inr (), ?fs')"
      using ne assms le
      by (auto simp: test_or_copy_def path_exists_def getmtime_def copyfile_def)
    then show ?thesis by (simp add: first)
  next
    case False
    then obtain t d where "fs_files fs target = Some (t, d)" and "copy_time \<le> t"
      by (cases "fs_files fs target") auto
    then have "test_or_copy now target copy fs = (Inr (), fs)"
      and "test_or_copy now' target copy fs = (Inr (), fs)" using kept by blast+
    then show ?thesis by simp
  qed
qed

theorem C4_witness:
  "test_or_copy (20::int) ''disk/limine/limine.cfg'' ''bootloader/limine/limine.cfg''
       \<lparr>fs_files = [''bootloader/limine/limine.cfg'' \<mapsto> (10, ''cfg'')], fs_copied = []\<rparr>
     = (Inr (), \<lparr>fs_files = [''bootloader/limine/limine.cfg'' \<mapsto> (10, ''cfg''),
                               ''disk/limine/limine.cfg'' \<mapsto> (20, ''cfg'')],
                  fs_copied = [(''bootloader/limine/limine.cfg'', ''disk/limine/limine.cfg'')]\<rparr>)
   \<and> test_or_copy (21::int) ''disk/limine/limine.cfg'' ''bootloader/limine/limine.cfg''
       \<lparr>fs_files = [''bootloader/limine/limine.cfg'' \<mapsto> (10, ''cfg''),
                    ''disk/limine/limine.cfg'' \<mapsto> (20, ''cfg'')],
        fs_copied = [(''bootloader/limine/limine.cfg'', ''disk/limine/limine.cfg'')]\<rparr>
     = (Inr (), \<lparr>fs_files = [''bootloader/limine/limine.cfg'' \<mapsto> (10, ''cfg''),
                               ''disk/limine/limine.cfg'' \<mapsto> (20, ''cfg'')],
                  fs_copied = [(''bootloader/limine/limine.cfg'', ''disk/limine/limine.cfg'')]\<rparr>)"
proof -
  let ?src = "''bootloader/limine/limine.cfg''"
  let ?dst = "''disk/limine/limine.cfg''"
  let ?fs = "\<lparr>fs_files = [?src \<mapsto> (10::int, ''cfg'')], fs_copied = []\<rparr>"
  let ?fs' = "\<lparr>fs_files = [?src \<mapsto> (10::int, ''cfg''), ?dst \<mapsto> (20, ''cfg'')],
      fs_copied = [(?src, ?dst)]\<rparr>"
  have src: "fs_files ?fs ?src = Some (10, ''cfg'')" by simp
  have absent: "fs_files ?fs ?dst = None" by simp
  have first: "test_or_copy 20 ?dst ?src ?fs = (Inr (), ?fs')"
    using conjunct1 [OF C4_test_or_copy [OF src, of ?dst 20]] absent by simp
  have "test_or_copy 21 ?dst ?src (snd (test_or_copy 20 ?dst ?src ?fs))
      = (Inr (), snd (test_or_copy 20 ?dst ?src ?fs))"
    using conjunct2 [OF conjunct2 [OF C4_test_or_copy [OF src, of ?dst 20 21]]] by simp
  then have second: "test_or_copy 21 ?dst ?src ?fs' = (Inr (), ?fs')" by (simp only: first snd_conv)
  from first second show ?thesis by (intro conjI)
qed

text \<open>
  C4, the claim as written, fails in its last part: a source whose modification time
  (10) lies after the time the copy is written at (5) is copied by the first call and
  copied again by the second, on unchanged inputs.
\<close>

theorem C4_counterexample:
  "fs_copied (snd (test_or_copy (6::int) ''target'' ''source''
      (snd (test_or_copy 5 ''target'' ''source''
         \<lparr>fs_files = [''source'' \<mapsto> (10, ''x'')], fs_copied = []\<rparr>))))
   = [(''source'', ''target''), (''source'', ''target'')]"
  by (simp add: test_or_copy_def path_exists_def getmtime_def copyfile_def)

section \<open>The names of a run are those of \<open>iso_names\<close>\<close>

text \<open>
  The files of one directory are added under the names \<open>iso_names\<close> gives them, and the
  files of the next directory start from the dictionary \<open>iso_names\<close> leaves: the
  numbering of a run is the numbering of \<open>iso_names\<close> on the files of the walk.
\<close>

lemma file_calls_iso_names:
  "file_calls root iso_root files m =
     map (\<lambda>(file, iso_file). AddFile (path_join root file) (iso_root @ ''/'' @ iso_file @ '';1'') file)
       (zip files (fst (iso_names files m)))"
  by (induction files arbitrary: m) (simp_all add: case_prod_beta)

lemma iso_names_walk_files:
  "fst (iso_names (walk_files ((root, dirs, files) # rest)) m) =
     fst (iso_names files m) @ fst (iso_names (walk_files rest) (snd (iso_names files m)))"
  by (simp add: iso_names_append)

end
